theory Spec2Isabelle
  imports Complex_Main
begin

section \<open>Errors\<close>

text \<open>
  The exceptions of \<^verbatim>\<open>NN/Basic/Layers.py\<close> that the model distinguishes. The first
  three are the repository's own (\<^verbatim>\<open>Errors.py\<close>) and Python's
  \<^verbatim>\<open>NotImplementedError\<close>; the others are raised by the interpreter or by numpy
  underneath a source line.
\<close>

datatype error =
    BuildLayerError
  | LayerError
  | NotImplementedError
  | ZeroDivisionError
  | AttributeError
  | TypeError
  | IndexError
  | ValueError
  | KeyError

section \<open>Shape validation of convolution and pooling layers\<close>

text \<open>
  \<^verbatim>\<open>int(a / b)\<close>: true division followed by truncation toward zero. The quotient is
  taken exactly (the float quotient of two integers is exact enough for that as long as
  the operands stay far below \<open>2^53\<close>, which layer sizes do). The divisor is never
  zero where the source evaluates this: \<^verbatim>\<open>% self._stride\<close> has raised before.
\<close>

definition int_truediv :: "int \<Rightarrow> int \<Rightarrow> int" where
  "int_truediv a b = sgn a * sgn b * (\<bar>a\<bar> div \<bar>b\<bar>)"

text \<open>The attributes \<^verbatim>\<open>feed_shape\<close> assigns.\<close>

record conv_dims =
  n_channels :: int
  n_filters :: int
  out_h :: int
  out_w :: int

text \<open>
  \<^verbatim>\<open>ConvLayer.feed_shape\<close>, with \<^verbatim>\<open>self._stride\<close> and \<^verbatim>\<open>self._padding\<close> as the first
  two arguments, \<^verbatim>\<open>shape[0] = (channels, height, width)\<close> and
  \<^verbatim>\<open>shape[1] = (filters, filter_height, filter_width)\<close>. Python's \<^verbatim>\<open>%\<close> on integers
  takes the sign of the divisor, as \<open>mod\<close> on \<open>int\<close> does, and raises on a zero
  divisor.
\<close>

definition ConvLayer_feed_shape ::
  "int \<Rightarrow> int \<Rightarrow> int \<times> int \<times> int \<Rightarrow> int \<times> int \<times> int \<Rightarrow> error + conv_dims" where
  "ConvLayer_feed_shape stride padding shape0 shape1 =
     (case shape0 of (channels, height, width) \<Rightarrow>
      case shape1 of (filters, filter_height, filter_width) \<Rightarrow>
        let full_height = width + 2 * padding;
            full_width = height + 2 * padding
        in if stride = 0 then Inl ZeroDivisionError
           else if (full_height - filter_height) mod stride \<noteq> 0 \<or>
                   (full_width - filter_width) mod stride \<noteq> 0
           then Inl BuildLayerError
           else Inr \<lparr> n_channels = channels, n_filters = filters,
                      out_h = int_truediv (height + 2 * padding - filter_height) stride + 1,
                      out_w = int_truediv (width + 2 * padding - filter_width) stride + 1 \<rparr>)"

text \<open>
  \<^verbatim>\<open>ConvPoolLayer.feed_shape\<close>: \<^verbatim>\<open>shape[1] = (pool_height, pool_width)\<close>, the number of
  filters is the number of channels, and the output size leaves the padding out.
\<close>

definition ConvPoolLayer_feed_shape ::
  "int \<Rightarrow> int \<Rightarrow> int \<times> int \<times> int \<Rightarrow> int \<times> int \<Rightarrow> error + conv_dims" where
  "ConvPoolLayer_feed_shape stride padding shape0 shape1 =
     (case shape0 of (channels, height, width) \<Rightarrow>
      case shape1 of (pool_height, pool_width) \<Rightarrow>
        let full_height = width + 2 * padding;
            full_width = height + 2 * padding
        in if stride = 0 then Inl ZeroDivisionError
           else if (full_height - pool_height) mod stride \<noteq> 0 \<or>
                   (full_width - pool_width) mod stride \<noteq> 0
           then Inl BuildLayerError
           else Inr \<lparr> n_channels = channels, n_filters = channels,
                      out_h = int_truediv (height - pool_height) stride + 1,
                      out_w = int_truediv (width - pool_width) stride + 1 \<rparr>)"

section \<open>Arrays\<close>

text \<open>
  A two-dimensional numpy array is the list of its rows, all of one length, and a
  one-dimensional array a list. Array elements are real numbers: rounding, infinities
  and NaN of the floating-point type are outside the model. The functions below give
  the numpy operations that the layer code calls, for operands of matching shapes (the
  only case the layers meet; numpy's broadcasting between other shapes is not
  modelled, except where a source line relies on it). A per-feature array of shape
  \<open>(d,)\<close> or \<open>(1, d)\<close> is a \<open>vec\<close>; combined with a matrix it is applied to every row.
\<close>

type_synonym vec = "real list"
type_synonym matrix = "real list list"

definition shape1 :: "matrix \<Rightarrow> nat" where
  \<comment> \<open>\<^verbatim>\<open>x.shape[1]\<close>\<close>
  "shape1 x = (case x of [] \<Rightarrow> 0 | r # _ \<Rightarrow> length r)"

definition np_zeros :: "nat \<Rightarrow> vec" where
  "np_zeros d = replicate d 0"

definition ew :: "(real \<Rightarrow> real \<Rightarrow> real) \<Rightarrow> matrix \<Rightarrow> matrix \<Rightarrow> matrix" where
  \<comment> \<open>an elementwise binary operation on two arrays of one shape\<close>
  "ew f a b = map2 (map2 f) a b"

definition ew_row :: "(real \<Rightarrow> real \<Rightarrow> real) \<Rightarrow> matrix \<Rightarrow> vec \<Rightarrow> matrix" where
  \<comment> \<open>a matrix combined with a per-feature array, row by row\<close>
  "ew_row f a v = map (\<lambda>r. map2 f r v) a"

definition ew1 :: "(real \<Rightarrow> real) \<Rightarrow> matrix \<Rightarrow> matrix" where
  \<comment> \<open>an array combined with a scalar, or mapped elementwise\<close>
  "ew1 f a = map (map f) a"

definition np_T :: "matrix \<Rightarrow> matrix" where
  \<comment> \<open>\<^verbatim>\<open>w.T\<close>\<close>
  "np_T w = map (\<lambda>j. map (\<lambda>r. r ! j) w) [0..<shape1 w]"

definition np_dot :: "matrix \<Rightarrow> matrix \<Rightarrow> matrix" where
  \<comment> \<open>\<^verbatim>\<open>a.dot(b)\<close> for \<open>a\<close> of shape \<open>(n, k)\<close> and \<open>b\<close> of shape \<open>(k, m)\<close>\<close>
  "np_dot a b = map (\<lambda>r. map (\<lambda>c. sum_list (map2 (*) r c)) (np_T b)) a"

definition np_sum0 :: "matrix \<Rightarrow> vec" where
  \<comment> \<open>\<^verbatim>\<open>np.sum(x, axis=0)\<close>\<close>
  "np_sum0 x = map (\<lambda>j. sum_list (map (\<lambda>r. r ! j) x)) [0..<shape1 x]"

definition np_mean0 :: "matrix \<Rightarrow> vec" where
  \<comment> \<open>\<^verbatim>\<open>np.mean(x, axis=0, keepdims=True)\<close>\<close>
  "np_mean0 x = map (\<lambda>s. s / real (length x)) (np_sum0 x)"

definition np_var0 :: "matrix \<Rightarrow> vec" where
  \<comment> \<open>\<^verbatim>\<open>np.var(x, axis=0, keepdims=True)\<close>: the mean squared deviation from the mean\<close>
  "np_var0 x = np_mean0 (ew1 (\<lambda>v. v\<^sup>2) (ew_row (-) x (np_mean0 x)))"

definition np_max1 :: "vec \<Rightarrow> real" where
  \<comment> \<open>the maximum of a non-empty row\<close>
  "np_max1 r = (case r of [] \<Rightarrow> 0 | v # vs \<Rightarrow> fold max vs v)"

definition np_argmax1 :: "matrix \<Rightarrow> error + nat list" where
  \<comment> \<open>\<^verbatim>\<open>np.argmax(y, axis=1)\<close>: per row the first index of its maximum; numpy refuses
      an empty row\<close>
  "np_argmax1 y =
     (if y \<noteq> [] \<and> shape1 y = 0 then Inl ValueError
      else Inr (map (\<lambda>r. length (takeWhile (\<lambda>v. v \<noteq> np_max1 r) r)) y))"

text \<open>
  Indexing a matrix with two integer arrays, \<^verbatim>\<open>a[rows, cols]\<close>. numpy broadcasts the
  two index arrays against each other: equal lengths pair up, an array of length one is
  repeated, anything else is an \<^verbatim>\<open>IndexError\<close>; so is a pair outside the matrix.
\<close>

definition np_index_pairs :: "nat list \<Rightarrow> nat list \<Rightarrow> error + (nat \<times> nat) list" where
  "np_index_pairs rows cols =
     (if length rows = length cols then Inr (zip rows cols)
      else if length rows = 1 then Inr (map (\<lambda>c. (hd rows, c)) cols)
      else if length cols = 1 then Inr (map (\<lambda>r. (r, hd cols)) rows)
      else Inl IndexError)"

definition in_bounds :: "matrix \<Rightarrow> nat \<times> nat \<Rightarrow> bool" where
  "in_bounds a rc = (fst rc < length a \<and> snd rc < shape1 a)"

definition np_get_at :: "matrix \<Rightarrow> nat list \<Rightarrow> nat list \<Rightarrow> error + vec" where
  \<comment> \<open>\<^verbatim>\<open>a[rows, cols]\<close> read\<close>
  "np_get_at a rows cols =
     (case np_index_pairs rows cols of Inl e \<Rightarrow> Inl e
      | Inr ps \<Rightarrow> if list_all (in_bounds a) ps
                  then Inr (map (\<lambda>(r, c). a ! r ! c) ps) else Inl IndexError)"

definition np_set_at :: "matrix \<Rightarrow> nat list \<Rightarrow> nat list \<Rightarrow> vec \<Rightarrow> error + matrix" where
  \<comment> \<open>\<^verbatim>\<open>a[rows, cols] = vals\<close>, one value per index pair, written in order\<close>
  "np_set_at a rows cols vals =
     (case np_index_pairs rows cols of Inl e \<Rightarrow> Inl e
      | Inr ps \<Rightarrow> if list_all (in_bounds a) ps
                  then Inr (fold (\<lambda>((r, c), v) acc. acc[r := (acc ! r)[c := v]]) (zip ps vals) a)
                  else Inl IndexError)"

definition np_isub_at :: "matrix \<Rightarrow> nat list \<Rightarrow> nat list \<Rightarrow> vec \<Rightarrow> error + matrix" where
  \<comment> \<open>\<^verbatim>\<open>a[rows, cols] -= vals\<close>: numpy reads \<^verbatim>\<open>a[rows, cols]\<close>, subtracts, and writes
      the differences back\<close>
  "np_isub_at a rows cols vals =
     (case np_get_at a rows cols of Inl e \<Rightarrow> Inl e
      | Inr old \<Rightarrow> np_set_at a rows cols (map2 (-) old vals))"

section \<open>Loss functions of the cost layer\<close>

text \<open>
  The gradient forms (\<^verbatim>\<open>diff=True\<close>) of the four loss functions. \<^verbatim>\<open>_log_likelihood\<close>
  is a class method that keeps \<^verbatim>\<open>cls._batch_range\<close>, the row indices, from its first
  call on; that class attribute is the \<open>nat list option\<close> passed in and returned.
\<close>

definition CostLayer_mse :: "matrix \<Rightarrow> matrix \<Rightarrow> matrix" where
  "CostLayer_mse y y_pred = ew (+) (ew1 uminus y) y_pred"

definition CostLayer_cross_entropy :: "matrix \<Rightarrow> matrix \<Rightarrow> matrix" where
  "CostLayer_cross_entropy y y_pred =
     ew (+) (ew (/) (ew1 uminus y) y_pred) (ew (/) (ew1 (\<lambda>v. 1 - v) y) (ew1 (\<lambda>v. 1 - v) y_pred))"

definition CostLayer_svm :: "matrix \<Rightarrow> matrix \<Rightarrow> error + matrix" where
  "CostLayer_svm y y_pred =
     (let n = length y_pred in
      case np_argmax1 y of Inl e \<Rightarrow> Inl e | Inr y' \<Rightarrow>
      case np_get_at y_pred [0..<n] y' of Inl e \<Rightarrow> Inl e | Inr correct_class_scores \<Rightarrow>
      case np_set_at
             (map2 (\<lambda>r s. map (\<lambda>v. max 0 (v - s + 1)) r) y_pred correct_class_scores)
             [0..<n] y' (replicate n 0) of Inl e \<Rightarrow> Inl e | Inr margins \<Rightarrow>
      let num_pos = map (\<lambda>r. real (length (filter (\<lambda>v. 0 < v) r))) margins;
          dx = ew1 (\<lambda>v. if 0 < v then 1 else 0) margins
      in case np_isub_at dx [0..<n] y' num_pos of Inl e \<Rightarrow> Inl e
         | Inr dx \<Rightarrow> Inr (ew1 (\<lambda>v. v / real n) dx))"

definition CostLayer_log_likelihood ::
  "nat list option \<Rightarrow> matrix \<Rightarrow> matrix \<Rightarrow> (error + matrix) \<times> nat list option" where
  "CostLayer_log_likelihood batch_range y y_pred =
     (let batch_range = (case batch_range of None \<Rightarrow> [0..<length y_pred] | Some b \<Rightarrow> b) in
      case np_argmax1 y of Inl e \<Rightarrow> (Inl e, Some batch_range)
      | Inr y_arg_max \<Rightarrow>
          (np_isub_at y_pred batch_range y_arg_max (replicate (length y_arg_max) 1),
           Some batch_range))"

text \<open>
  The same call with the arrays as objects: \<^verbatim>\<open>y_pred = y_pred.copy()\<close> allocates a new
  array, the indexed subtraction works on that copy in place, and the copy is what the
  call returns. The heap maps an array's address to its contents; \<open>next_free\<close> is the
  first address not yet allocated.
\<close>

record np_heap =
  arrays :: "nat \<Rightarrow> matrix"
  next_free :: nat

definition np_copy :: "np_heap \<Rightarrow> nat \<Rightarrow> nat \<times> np_heap" where
  "np_copy h a =
     (next_free h, h\<lparr> arrays := (arrays h)(next_free h := arrays h a),
                      next_free := Suc (next_free h) \<rparr>)"

definition CostLayer_log_likelihood_at ::
  "nat list option \<Rightarrow> np_heap \<Rightarrow> matrix \<Rightarrow> nat \<Rightarrow> (error + nat) \<times> nat list option \<times> np_heap" where
  "CostLayer_log_likelihood_at batch_range h y y_pred =
     (let batch_range =
            (case batch_range of None \<Rightarrow> [0..<length (arrays h y_pred)] | Some b \<Rightarrow> b) in
      case np_argmax1 y of Inl e \<Rightarrow> (Inl e, Some batch_range, h)
      | Inr y_arg_max \<Rightarrow>
          (case np_copy h y_pred of (y_pred, h) \<Rightarrow>
           (case np_isub_at (arrays h y_pred) batch_range y_arg_max
                   (replicate (length y_arg_max) 1) of
              Inl e \<Rightarrow> (Inl e, Some batch_range, h)
            | Inr a \<Rightarrow> (Inr y_pred, Some batch_range, h\<lparr> arrays := (arrays h)(y_pred := a) \<rparr>))))"

text \<open>
  The loss functions by name, as \<^verbatim>\<open>CostLayer.__init__\<close> and the \<^verbatim>\<open>cost_function\<close>
  setter select them from \<^verbatim>\<open>_available_cost_functions\<close>; another name is a
  \<^verbatim>\<open>LayerError\<close>. (\<^verbatim>\<open>set_cost_function_derivative\<close>, which installs a caller's own
  function, is not modelled.)
\<close>

datatype cost_function = MSE | SVM | Cross_Entropy | Log_Likelihood

fun cost_function_name :: "cost_function \<Rightarrow> string" where
  "cost_function_name MSE = ''MSE''"
| "cost_function_name SVM = ''SVM''"
| "cost_function_name Cross_Entropy = ''Cross Entropy''"
| "cost_function_name Log_Likelihood = ''Log Likelihood''"

definition available_cost_functions :: "string \<Rightarrow> error + cost_function" where
  "available_cost_functions name =
     (if name = ''MSE'' then Inr MSE
      else if name = ''SVM'' then Inr SVM
      else if name = ''Cross Entropy'' then Inr Cross_Entropy
      else if name = ''Log Likelihood'' then Inr Log_Likelihood
      else Inl LayerError)"

fun cost_function_apply ::
  "cost_function \<Rightarrow> nat list option \<Rightarrow> matrix \<Rightarrow> matrix \<Rightarrow> (error + matrix) \<times> nat list option" where
  "cost_function_apply MSE br y y_pred = (Inr (CostLayer_mse y y_pred), br)"
| "cost_function_apply SVM br y y_pred = (CostLayer_svm y y_pred, br)"
| "cost_function_apply Cross_Entropy br y y_pred = (Inr (CostLayer_cross_entropy y y_pred), br)"
| "cost_function_apply Log_Likelihood br y y_pred = CostLayer_log_likelihood br y y_pred"

section \<open>The normalization sub-layer\<close>

text \<open>
  The attributes of a \<^verbatim>\<open>Normalize\<close> object that its forward and backward operations read
  or write. The optimizers come from \<^verbatim>\<open>Basic.Optimizers\<close>, outside this file: their
  state is of an arbitrary type \<open>'o\<close>, and their two operations are parameters of the
  backward operation.
\<close>

record 'o normalize_state =
  sample_mean :: "vec option"
  sample_var :: "vec option"
  running_mean :: "vec option"
  running_var :: "vec option"
  x_cache :: "matrix option"
  x_normalized_cache :: "matrix option"
  gamma :: vec
  beta :: vec
  eps :: real
  momentum :: real
  g_optimizer :: 'o
  b_optimizer :: 'o

record 'o optimizers =
  opt_run :: "'o \<Rightarrow> nat \<Rightarrow> vec \<Rightarrow> vec \<times> 'o"
  opt_update :: "'o \<Rightarrow> 'o"

definition Normalize_init :: "nat \<Rightarrow> real \<Rightarrow> real \<Rightarrow> 'o \<Rightarrow> 'o \<Rightarrow> 'o normalize_state" where
  \<comment> \<open>what \<^verbatim>\<open>Normalize.__init__\<close> assigns, for \<^verbatim>\<open>shape[1] = d\<close>\<close>
  "Normalize_init d e m g b =
     \<lparr> sample_mean = None, sample_var = None, running_mean = None, running_var = None,
       x_cache = None, x_normalized_cache = None,
       gamma = replicate d 1, beta = replicate d 0, eps = e, momentum = m,
       g_optimizer = g, b_optimizer = b \<rparr>"

definition normalized :: "matrix \<Rightarrow> vec \<Rightarrow> vec \<Rightarrow> real \<Rightarrow> matrix" where
  \<comment> \<open>\<^verbatim>\<open>(x - mean) / np.sqrt(var + self._eps)\<close>\<close>
  "normalized x mean var e = ew_row (/) (ew_row (-) x mean) (map (\<lambda>v. sqrt (v + e)) var)"

definition scale_shift :: "vec \<Rightarrow> matrix \<Rightarrow> vec \<Rightarrow> matrix" where
  \<comment> \<open>\<^verbatim>\<open>self.gamma * x_normalized + self.beta\<close>\<close>
  "scale_shift g x_normalized b = ew_row (+) (ew_row (\<lambda>v c. c * v) x_normalized g) b"

definition smooth :: "real \<Rightarrow> vec \<Rightarrow> vec \<Rightarrow> vec" where
  \<comment> \<open>\<^verbatim>\<open>self._momentum * running + (1 - self._momentum) * sample\<close>\<close>
  "smooth m running sample = map2 (+) (map (\<lambda>v. m * v) running) (map (\<lambda>v. (1 - m) * v) sample)"

text \<open>\<^verbatim>\<open>Normalize._activate\<close>: the output and the object afterwards.\<close>

definition Normalize_activate ::
  "'o normalize_state \<Rightarrow> matrix \<Rightarrow> bool \<Rightarrow> matrix \<times> 'o normalize_state" where
  "Normalize_activate self x predict =
     (let self = (if running_mean self = None \<or> running_var self = None
                  then self\<lparr> running_mean := Some (np_zeros (shape1 x)),
                             running_var := Some (np_zeros (shape1 x)) \<rparr>
                  else self);
          r_mean = (case running_mean self of Some v \<Rightarrow> v | None \<Rightarrow> []);
          r_var = (case running_var self of Some v \<Rightarrow> v | None \<Rightarrow> [])
      in if \<not> predict then
           let s_mean = np_mean0 x;
               s_var = np_var0 x;
               x_normalized = normalized x s_mean s_var (eps self);
               out = scale_shift (gamma self) x_normalized (beta self)
           in (out, self\<lparr> sample_mean := Some s_mean, sample_var := Some s_var,
                           x_cache := Some x, x_normalized_cache := Some x_normalized,
                           running_mean := Some (smooth (momentum self) r_mean s_mean),
                           running_var := Some (smooth (momentum self) r_var s_var) \<rparr>)
         else
           let x_normalized = normalized x r_mean r_var (eps self);
               out = scale_shift (gamma self) x_normalized (beta self)
           in (out, self))"

text \<open>
  \<^verbatim>\<open>Normalize._derivative\<close>. A cache that is still \<^verbatim>\<open>None\<close> makes the first line that
  touches it raise. The parameter update adds what the optimizer's \<^verbatim>\<open>run\<close> returns and
  then advances the optimizer.
\<close>

definition Normalize_derivative ::
  "'o optimizers \<Rightarrow> 'o normalize_state \<Rightarrow> matrix option \<Rightarrow> (error + matrix) \<times> 'o normalize_state" where
  "Normalize_derivative opt self delta =
     (case x_cache self of None \<Rightarrow> (Inl AttributeError, self) | Some xc \<Rightarrow>
      case delta of None \<Rightarrow> (Inl TypeError, self) | Some delta \<Rightarrow>
      case sample_mean self of None \<Rightarrow> (Inl TypeError, self) | Some s_mean \<Rightarrow>
      case sample_var self of None \<Rightarrow> (Inl TypeError, self) | Some s_var \<Rightarrow>
      case x_normalized_cache self of None \<Rightarrow> (Inl TypeError, self) | Some xn \<Rightarrow>
        let n = real (length xc);
            dx_normalized = ew_row (*) delta (gamma self);
            x_mu = ew_row (-) xc s_mean;
            sample_std_inv = map (\<lambda>v. 1 / sqrt (v + eps self)) s_var;
            ds_var = map2 (*) (map (\<lambda>v. - 0.5 * v) (np_sum0 (ew (*) dx_normalized x_mu)))
                       (map (\<lambda>v. v ^ 3) sample_std_inv);
            ds_mean = map2 (-)
                        (map (\<lambda>v. - 1 * v) (np_sum0 (ew_row (*) dx_normalized sample_std_inv)))
                        (map2 (*) (map (\<lambda>v. 2 * v) ds_var) (np_mean0 x_mu));
            dx1 = ew_row (*) dx_normalized sample_std_inv;
            dx2 = ew_row (\<lambda>v c. c * v) x_mu (map (\<lambda>v. 2 / n * v) ds_var);
            dx = ew_row (+) (ew (+) dx1 dx2) (map (\<lambda>v. 1 / n * v) ds_mean);
            dg = map uminus (np_sum0 (ew (*) delta xn));
            db = map uminus (np_sum0 delta)
        in case opt_run opt (g_optimizer self) 0 dg of (g_step, g_opt) \<Rightarrow>
           case opt_run opt (b_optimizer self) 0 db of (b_step, b_opt) \<Rightarrow>
             (Inr (ew (-) delta dx),
              self\<lparr> gamma := map2 (+) (gamma self) g_step,
                     beta := map2 (+) (beta self) b_step,
                     g_optimizer := opt_update opt g_opt,
                     b_optimizer := opt_update opt b_opt \<rparr>))"

section \<open>Layer nodes and their links\<close>

text \<open>
  The classes whose objects run \<^verbatim>\<open>Layer.bp\<close>: the seven activation layers, and
  \<^verbatim>\<open>SubLayer\<close> with its subclasses \<^verbatim>\<open>Dropout\<close> (with its \<^verbatim>\<open>_prob\<close>), \<^verbatim>\<open>Normalize\<close> and
  \<^verbatim>\<open>CostLayer\<close> (with its selected loss). The convolution and pooling classes replace
  \<^verbatim>\<open>bp\<close> by their own and are not nodes of this model.
\<close>

datatype activation = Tanh | Sigmoid | ELU | ReLU | Softplus | Identical | Softmax

datatype layer_class =
    Activation activation
  | SubLayer | Dropout real | Normalize | CostLayer cost_function

fun is_SubLayer :: "layer_class \<Rightarrow> bool" where
  \<comment> \<open>\<^verbatim>\<open>isinstance(self, SubLayer)\<close>\<close>
  "is_SubLayer (Activation a) = False"
| "is_SubLayer SubLayer = True"
| "is_SubLayer (Dropout p) = True"
| "is_SubLayer Normalize = True"
| "is_SubLayer (CostLayer c) = True"

fun name :: "layer_class \<Rightarrow> string" where
  \<comment> \<open>\<^verbatim>\<open>self.name\<close>, that is \<^verbatim>\<open>str(self)\<close>: the class name, for a cost layer the name of
      its loss\<close>
  "name (Activation Tanh) = ''Tanh''"
| "name (Activation Sigmoid) = ''Sigmoid''"
| "name (Activation ELU) = ''ELU''"
| "name (Activation ReLU) = ''ReLU''"
| "name (Activation Softplus) = ''Softplus''"
| "name (Activation Identical) = ''Identical''"
| "name (Activation Softmax) = ''Softmax''"
| "name SubLayer = ''SubLayer''"
| "name (Dropout p) = ''Dropout''"
| "name Normalize = ''Normalize''"
| "name (CostLayer c) = cost_function_name c"

text \<open>
  A node: its class, the \<^verbatim>\<open>parent\<close> and \<^verbatim>\<open>child\<close> attributes, and for a sub-layer the
  attribute \<^verbatim>\<open>_root\<close> (here \<open>stored_root\<close>), which \<^verbatim>\<open>SubLayer.__init__\<close> sets to
  \<^verbatim>\<open>None\<close> and the \<^verbatim>\<open>root\<close> setter assigns. Nodes live in a store, addressed by
  number, so that links are references.
\<close>

type_synonym addr = nat

record layer =
  cls :: layer_class
  parent :: "addr option"
  child :: "addr option"
  stored_root :: "addr option"

type_synonym layers = "addr \<Rightarrow> layer"

definition Layer_init :: "layers \<Rightarrow> addr \<Rightarrow> layer_class \<Rightarrow> layers" where
  \<comment> \<open>\<^verbatim>\<open>Layer.__init__\<close> for a new object at address \<open>self\<close>\<close>
  "Layer_init h self c = h(self := \<lparr> cls = c, parent = None, child = None, stored_root = None \<rparr>)"

definition SubLayer_init :: "layers \<Rightarrow> addr \<Rightarrow> addr \<Rightarrow> layer_class \<Rightarrow> layers" where
  \<comment> \<open>\<^verbatim>\<open>SubLayer.__init__(self, parent, shape)\<close>\<close>
  "SubLayer_init h self p c =
     (let h = Layer_init h self c;
          h = h(self := (h self)\<lparr> parent := Some p \<rparr>);
          h = h(p := (h p)\<lparr> child := Some self \<rparr>)
      in h(self := (h self)\<lparr> stored_root := None \<rparr>))"

definition root_setter :: "layers \<Rightarrow> addr \<Rightarrow> addr \<Rightarrow> error + layers" where
  \<comment> \<open>\<^verbatim>\<open>self.root = value\<close>: refused on a \<^verbatim>\<open>Layer\<close>, stored in \<^verbatim>\<open>_root\<close> on a sub-layer\<close>
  "root_setter h self v =
     (if is_SubLayer (cls (h self)) then Inr (h(self := (h self)\<lparr> stored_root := Some v \<rparr>))
      else Inl BuildLayerError)"

text \<open>
  The \<^verbatim>\<open>root\<close> property (\<open>SubLayer_root\<close>; on a plain \<^verbatim>\<open>Layer\<close> it returns the
  node itself). On a sub-layer it follows the \<^verbatim>\<open>parent\<close> links up to the node
  that has none; the loop need not end when the links form a cycle, so the walk is a
  partial function, \<open>None\<close> where it does not return.
\<close>

partial_function (option) walk_parents :: "layers \<Rightarrow> addr \<Rightarrow> addr option" where
  "walk_parents h p = (case parent (h p) of None \<Rightarrow> Some p | Some q \<Rightarrow> walk_parents h q)"

definition SubLayer_root :: "layers \<Rightarrow> addr \<Rightarrow> (error + addr) option" where
  "SubLayer_root h self =
     (if is_SubLayer (cls (h self)) then
        (case parent (h self) of None \<Rightarrow> Some (Inl AttributeError)
         | Some p \<Rightarrow> map_option Inr (walk_parents h p))
      else Some (Inr self))"

text \<open>One step of that walk: the \<^verbatim>\<open>parent\<close> attribute of \<open>a\<close> is the node \<open>b\<close>.\<close>

definition parent_link :: "layers \<Rightarrow> addr \<Rightarrow> addr \<Rightarrow> bool" where
  "parent_link h a b \<longleftrightarrow> parent (h a) = Some b"

section \<open>Derivatives and backward propagation\<close>

text \<open>
  \<^verbatim>\<open>_derivative(y, delta)\<close> of each class. The activations use \<open>y\<close> alone;
  \<^verbatim>\<open>ReLU\<close>'s boolean array counts as 0 and 1 in the product that follows, and
  \<^verbatim>\<open>Identical\<close>'s scalar 1 is the array of ones of \<open>y\<close>'s shape. The state of the
  \<^verbatim>\<open>Normalize\<close> objects is kept by address beside the links.
\<close>

fun activation_derivative :: "activation \<Rightarrow> real \<Rightarrow> real" where
  "activation_derivative Tanh v = 1 - v\<^sup>2"
| "activation_derivative Sigmoid v = v * (1 - v)"
| "activation_derivative ELU v = (if v < 0 then v + 1 else 1)"
| "activation_derivative ReLU v = (if 0 < v then 1 else 0)"
| "activation_derivative Softplus v = 1 / (1 + 1 / (exp v - 1))"
| "activation_derivative Identical v = 1"
| "activation_derivative Softmax v = v * (1 - v)"

definition derivative ::
  "'o optimizers \<Rightarrow> layers \<Rightarrow> addr \<Rightarrow> matrix \<Rightarrow> matrix option \<Rightarrow>
   (addr \<Rightarrow> 'o normalize_state) \<Rightarrow> (error + matrix) \<times> (addr \<Rightarrow> 'o normalize_state)" where
  "derivative opt h self y delta st =
     (case cls (h self) of
        SubLayer \<Rightarrow> (Inl NotImplementedError, st)
      | CostLayer c \<Rightarrow> (Inl LayerError, st)
      | Dropout prob \<Rightarrow>
          (case delta of None \<Rightarrow> (Inl TypeError, st)
           | Some d \<Rightarrow> (Inr (ew1 (\<lambda>v. 1 / (1 - prob) * v) d), st))
      | Normalize \<Rightarrow>
          (case Normalize_derivative opt (st self) delta of (r, s) \<Rightarrow> (r, st(self := s)))
      | Activation a \<Rightarrow> (Inr (ew1 (activation_derivative a) y), st))"

text \<open>
  \<^verbatim>\<open>Layer.bp\<close>. \<^verbatim>\<open>self._root.derivative(y)\<close> reads the attribute \<^verbatim>\<open>_root\<close>; on
  \<^verbatim>\<open>None\<close> the attribute access raises.
\<close>

definition Layer_bp ::
  "'o optimizers \<Rightarrow> layers \<Rightarrow> addr \<Rightarrow> matrix \<Rightarrow> matrix \<Rightarrow> matrix \<Rightarrow>
   (addr \<Rightarrow> 'o normalize_state) \<Rightarrow> (error + matrix) \<times> (addr \<Rightarrow> 'o normalize_state)" where
  "Layer_bp opt h self y w prev_delta st =
     (if (case child (h self) of None \<Rightarrow> False | Some c \<Rightarrow> is_SubLayer (cls (h c))) then
        (if \<not> is_SubLayer (cls (h self)) then (Inr prev_delta, st)
         else derivative opt h self y (Some prev_delta) st)
      else if is_SubLayer (cls (h self)) then
        (case stored_root (h self) of None \<Rightarrow> (Inl AttributeError, st)
         | Some r \<Rightarrow>
             (case derivative opt h r y None st of
                (Inl e, st) \<Rightarrow> (Inl e, st)
              | (Inr d, st) \<Rightarrow>
                  derivative opt h self y (Some (ew (*) (np_dot prev_delta (np_T w)) d)) st))
      else
        (case derivative opt h self y None st of
           (Inl e, st) \<Rightarrow> (Inl e, st)
         | (Inr d, st) \<Rightarrow> (Inr (ew (*) (np_dot prev_delta (np_T w)) d), st)))"

text \<open>
  \<^verbatim>\<open>CostLayer.bp_first\<close>, on a node of class \<^verbatim>\<open>CostLayer\<close>. The unary minus binds
  tighter than \<^verbatim>\<open>/\<close> and \<^verbatim>\<open>*\<close>: it negates what the loss function returns.
\<close>

definition CostLayer_bp_first ::
  "'o optimizers \<Rightarrow> layers \<Rightarrow> addr \<Rightarrow> matrix \<Rightarrow> matrix \<Rightarrow> nat list option \<Rightarrow>
   (addr \<Rightarrow> 'o normalize_state) \<Rightarrow>
   (error + matrix) \<times> nat list option \<times> (addr \<Rightarrow> 'o normalize_state)" where
  "CostLayer_bp_first opt h self y y_pred br st =
     (case cls (h self) of
        CostLayer c \<Rightarrow>
          (case stored_root (h self) of None \<Rightarrow> (Inl AttributeError, br, st)
           | Some r \<Rightarrow>
               if name (cls (h r)) = ''Sigmoid'' \<and> cost_function_name c = ''Cross Entropy''
               then (Inr (ew (-) (ew (*) y (ew1 (\<lambda>v. 1 - v) y_pred))
                                 (ew (*) (ew1 (\<lambda>v. 1 - v) y) y_pred)), br, st)
               else if cost_function_name c = ''Log Likelihood''
               then (case cost_function_apply c br y y_pred of
                       (Inl e, br) \<Rightarrow> (Inl e, br, st)
                     | (Inr g, br) \<Rightarrow> (Inr (ew1 (\<lambda>v. - v / 4) g), br, st))
               else (case cost_function_apply c br y y_pred of
                       (Inl e, br) \<Rightarrow> (Inl e, br, st)
                     | (Inr g, br) \<Rightarrow>
                         (case derivative opt h r y_pred None st of
                            (Inl e, st) \<Rightarrow> (Inl e, br, st)
                          | (Inr d, st) \<Rightarrow> (Inr (ew (*) (ew1 uminus g) d), br, st))))
      | _ \<Rightarrow> (Inl AttributeError, br, st))"

section \<open>Max pooling\<close>

text \<open>
  A four-dimensional array \<^verbatim>\<open>(n, n_channels, height, width)\<close> is the list, per sample,
  of the list, per channel, of a plane of \<open>height\<close> rows. Both pooling paths work on
  every (sample, channel) plane by itself. Sizes, the stride and slice bounds are
  natural numbers.
\<close>

type_synonym tensor4 = "matrix list list"

definition shape4 :: "tensor4 \<Rightarrow> nat \<times> nat \<times> nat \<times> nat" where
  \<comment> \<open>\<^verbatim>\<open>x.shape\<close>\<close>
  "shape4 x =
     (length x, (case x of [] \<Rightarrow> 0 | s # _ \<Rightarrow> length s),
      (case concat x of [] \<Rightarrow> 0 | p # _ \<Rightarrow> length p),
      (case concat x of [] \<Rightarrow> 0 | p # _ \<Rightarrow> shape1 p))"

definition slice :: "nat \<Rightarrow> nat \<Rightarrow> 'a list \<Rightarrow> 'a list" where
  \<comment> \<open>\<^verbatim>\<open>xs[a:b]\<close>, cut off at the end of \<open>xs\<close> as Python does\<close>
  "slice a b xs = take (b - a) (drop a xs)"

definition window :: "matrix \<Rightarrow> nat \<Rightarrow> nat \<Rightarrow> nat \<Rightarrow> nat \<Rightarrow> matrix" where
  \<comment> \<open>\<^verbatim>\<open>x[i, j, r0:r1, c0:c1]\<close> of the plane \<open>x[i, j]\<close>\<close>
  "window plane r0 r1 c0 c1 = map (slice c0 c1) (slice r0 r1 plane)"

definition set_slice :: "nat \<Rightarrow> nat \<Rightarrow> 'a list \<Rightarrow> 'a list \<Rightarrow> 'a list" where
  \<comment> \<open>\<^verbatim>\<open>xs[a:b] = v\<close> for \<open>v\<close> as long as the slice, \<open>a \<le> b\<close>\<close>
  "set_slice a b v xs = take a xs @ v @ drop b xs"

definition set_window :: "matrix \<Rightarrow> nat \<Rightarrow> nat \<Rightarrow> nat \<Rightarrow> nat \<Rightarrow> matrix \<Rightarrow> matrix" where
  \<comment> \<open>\<^verbatim>\<open>dx[i, j, r0:r1, c0:c1] = block\<close> on the plane \<open>dx[i, j]\<close>, the block of the
      window's shape\<close>
  "set_window plane r0 r1 c0 c1 block =
     set_slice r0 r1 (map2 (\<lambda>row v. set_slice c0 c1 v row) (slice r0 r1 plane) block) plane"

definition np_max :: "matrix \<Rightarrow> error + real" where
  \<comment> \<open>\<^verbatim>\<open>np.max(window)\<close>; numpy refuses an array without elements\<close>
  "np_max w = (case concat w of [] \<Rightarrow> Inl ValueError | v # vs \<Rightarrow> Inr (fold max vs v))"

fun sequence :: "(error + 'a) list \<Rightarrow> error + 'a list" where
  \<comment> \<open>the results of a loop's iterations in order, up to the first that raises\<close>
  "sequence [] = Inr []"
| "sequence (r # rs) =
     (case r of Inl e \<Rightarrow> Inl e
      | Inr v \<Rightarrow> (case sequence rs of Inl e \<Rightarrow> Inl e | Inr vs \<Rightarrow> Inr (v # vs)))"

fun for_loop :: "nat list \<Rightarrow> (nat \<Rightarrow> 's \<Rightarrow> error + 's) \<Rightarrow> 's \<Rightarrow> error + 's" where
  \<comment> \<open>\<^verbatim>\<open>for k in range(...)\<close> over a state, left when an iteration raises\<close>
  "for_loop [] body s = Inr s"
| "for_loop (k # ks) body s =
     (case body k s of Inl e \<Rightarrow> Inl e | Inr s' \<Rightarrow> for_loop ks body s')"

text \<open>
  The attributes of a \<^verbatim>\<open>MaxPool\<close> object: \<^verbatim>\<open>_stride\<close>, \<^verbatim>\<open>_shape[1]\<close>, the sizes that
  \<^verbatim>\<open>feed_shape\<close> computed, \<^verbatim>\<open>x_cache\<close>, and the entries \<^verbatim>\<open>"method"\<close> and
  \<^verbatim>\<open>"x_reshaped"\<close> of \<^verbatim>\<open>_pool_cache\<close> (\<open>None\<close> for a missing key). The reshaped array
  is kept with the four trailing sizes of its shape, which nested lists do not show
  when an axis is empty.
\<close>

type_synonym tiles = "real list list list list"

record maxpool =
  pool_stride :: nat
  pool_shape :: "nat \<times> nat"
  pool_dims :: conv_dims
  pool_x_cache :: "tensor4 option"
  pool_method :: "string option"
  pool_x_reshaped :: "((nat \<times> nat \<times> nat \<times> nat) \<times> tiles list list) option"

definition MaxPool_init ::
  "nat \<times> nat \<times> nat \<Rightarrow> nat \<times> nat \<Rightarrow> nat \<Rightarrow> nat \<Rightarrow> error + maxpool" where
  \<comment> \<open>\<^verbatim>\<open>ConvPoolLayer.__init__(shape, stride, padding)\<close> with \<^verbatim>\<open>shape = (input, pool)\<close>\<close>
  "MaxPool_init input pool stride padding =
     (case input of (c, h, w) \<Rightarrow>
      (case ConvPoolLayer_feed_shape (int stride) (int padding) (int c, int h, int w)
              (int (fst pool), int (snd pool)) of
         Inl e \<Rightarrow> Inl e
       | Inr d \<Rightarrow> Inr \<lparr> pool_stride = stride, pool_shape = pool, pool_dims = d,
                        pool_x_cache = None, pool_method = None, pool_x_reshaped = None \<rparr>))"

text \<open>
  The reshape path on one plane. \<^verbatim>\<open>x.reshape(n, n_channels, height / pool_height,
  pool_height, width / pool_width, pool_width)\<close> keeps the row-major order of the
  elements, and so does the reshape back; the two leading axes are untouched.
\<close>

definition tiles_of :: "nat \<Rightarrow> nat \<Rightarrow> nat \<Rightarrow> nat \<Rightarrow> matrix \<Rightarrow> tiles" where
  "tiles_of nh ph nw pw plane =
     (let flat = concat plane in
      map (\<lambda>a. map (\<lambda>b. map (\<lambda>c. map (\<lambda>d.
        flat ! (((a * ph + b) * nw + c) * pw + d))
        [0..<pw]) [0..<nw]) [0..<ph]) [0..<nh])"

definition plane_of :: "nat \<Rightarrow> nat \<Rightarrow> tiles \<Rightarrow> matrix" where
  "plane_of height width t =
     (let flat = concat (concat (concat t)) in
      map (\<lambda>r. map (\<lambda>c. flat ! (r * width + c)) [0..<width]) [0..<height])"

definition tiles_max :: "nat \<Rightarrow> nat \<Rightarrow> nat \<Rightarrow> tiles \<Rightarrow> matrix" where
  \<comment> \<open>\<^verbatim>\<open>x_reshaped.max(axis=3).max(axis=4)\<close>: the maximum over the rows of a tile, then
      over its columns\<close>
  "tiles_max ph nw pw t =
     map (\<lambda>ta. map (\<lambda>c. np_max1 (map (\<lambda>d. np_max1 (map (\<lambda>b. ta ! b ! c ! d) [0..<ph]))
                                   [0..<pw])) [0..<nw]) t"

definition MaxPool_activate_reshape ::
  "nat \<Rightarrow> nat \<Rightarrow> tensor4 \<Rightarrow> ((nat \<times> nat \<times> nat \<times> nat) \<times> tiles list list) \<times> tensor4" where
  "MaxPool_activate_reshape pool_height pool_width x =
     (case shape4 x of (n, channels, height, width) \<Rightarrow>
      let nh = height div pool_height;
          nw = width div pool_width;
          x_reshaped = map (map (tiles_of nh pool_height nw pool_width)) x
      in (((nh, pool_height, nw, pool_width), x_reshaped),
          map (map (tiles_max pool_height nw pool_width)) x_reshaped))"

text \<open>The sliding-window path: the four nested loops, each output cell by itself.\<close>

definition MaxPool_activate_original ::
  "nat \<Rightarrow> nat \<Rightarrow> nat \<Rightarrow> nat \<Rightarrow> nat \<Rightarrow> tensor4 \<Rightarrow> error + tensor4" where
  "MaxPool_activate_original pool_height pool_width sd oh ow x =
     (case shape4 x of (n, channels, height, width) \<Rightarrow>
      sequence (map (\<lambda>i. sequence (map (\<lambda>j.
        sequence (map (\<lambda>k. sequence (map (\<lambda>l.
          np_max (window (x ! i ! j) (k * sd) (pool_height + k * sd)
                                      (l * sd) (pool_width + l * sd)))
          [0..<ow])) [0..<oh])) [0..<channels])) [0..<n]))"

text \<open>
  \<^verbatim>\<open>MaxPool._activate\<close>. \<^verbatim>\<open>height % pool_height\<close> and \<^verbatim>\<open>width % pool_width\<close> raise on a
  zero divisor, the second only when the first test held; \<^verbatim>\<open>np.zeros\<close> refuses a
  negative size.
\<close>

definition MaxPool_activate :: "maxpool \<Rightarrow> tensor4 \<Rightarrow> (error + tensor4) \<times> maxpool" where
  "MaxPool_activate self x =
     (let self = self\<lparr> pool_x_cache := Some x \<rparr>;
          sd = pool_stride self
      in case shape4 x of (n, channels, height, width) \<Rightarrow>
         case pool_shape self of (pool_height, pool_width) \<Rightarrow>
         let same_size = (pool_height = pool_width \<and> pool_width = sd) in
         if pool_height = 0 then (Inl ZeroDivisionError, self)
         else if height mod pool_height = 0 \<and> pool_width = 0 then (Inl ZeroDivisionError, self)
         else
           let tiles = (height mod pool_height = 0 \<and> width mod pool_width = 0) in
           if same_size \<and> tiles then
             (case MaxPool_activate_reshape pool_height pool_width x of (x_reshaped, out) \<Rightarrow>
                (Inr out, self\<lparr> pool_x_reshaped := Some x_reshaped,
                                pool_method := Some ''reshape'' \<rparr>))
           else if out_h (pool_dims self) < 0 \<or> out_w (pool_dims self) < 0
           then (Inl ValueError, self)
           else
             (case MaxPool_activate_original pool_height pool_width sd
                     (nat (out_h (pool_dims self))) (nat (out_w (pool_dims self))) x of
                Inl e \<Rightarrow> (Inl e, self)
              | Inr out \<Rightarrow> (Inr out, self\<lparr> pool_method := Some ''original'' \<rparr>)))"

text \<open>
  \<^verbatim>\<open>MaxPool._derivative\<close> from the line that reads the recorded method on; \<open>delta\<close> is
  what the lines before it have selected (the upstream gradient, or its product with
  \<^verbatim>\<open>w.T\<close> in the shape of \<open>y\<close> for a layer before a flattening boundary).
  In the reshape path a tile in which no entry equals \<open>y\<close> divides 0 by 0: NaN in numpy
  and 0 here; it does not arise when \<open>y\<close> is the forward output.
\<close>

definition tile_count :: "nat \<Rightarrow> nat \<Rightarrow> real list list list \<Rightarrow> nat \<Rightarrow> real \<Rightarrow> nat" where
  \<comment> \<open>\<^verbatim>\<open>np.sum(mask, axis=(3, 5), keepdims=True)\<close> at one tile\<close>
  "tile_count ph pw ta c yv =
     length (filter (\<lambda>(b, d). ta ! b ! c ! d = yv) (List.product [0..<ph] [0..<pw]))"

definition tiles_derivative ::
  "nat \<times> nat \<times> nat \<times> nat \<Rightarrow> tiles \<Rightarrow> matrix \<Rightarrow> matrix \<Rightarrow> tiles" where
  "tiles_derivative dims t y delta =
     (case dims of (nh, ph, nw, pw) \<Rightarrow>
      map (\<lambda>a. map (\<lambda>b. map (\<lambda>c. map (\<lambda>d.
        (if t ! a ! b ! c ! d = y ! a ! c then delta ! a ! c else 0)
          / real (tile_count ph pw (t ! a) c (y ! a ! c)))
        [0..<pw]) [0..<nw]) [0..<ph]) [0..<nh])"

definition MaxPool_derivative_reshape ::
  "(nat \<times> nat \<times> nat \<times> nat) \<times> tiles list list \<Rightarrow> tensor4 \<Rightarrow> tensor4 \<Rightarrow> tensor4 \<Rightarrow> tensor4" where
  "MaxPool_derivative_reshape x_reshaped_cache cached_x y delta =
     (case shape4 cached_x of (n, channels, height, width) \<Rightarrow>
      map (\<lambda>i. map (\<lambda>j.
        plane_of height width
          (tiles_derivative (fst x_reshaped_cache) (snd x_reshaped_cache ! i ! j)
             (y ! i ! j) (delta ! i ! j)))
        [0..<channels]) [0..<n])"

definition index2 :: "matrix \<Rightarrow> nat \<Rightarrow> nat \<Rightarrow> error + real" where
  \<comment> \<open>\<^verbatim>\<open>delta[i, j, k, l]\<close> on the plane \<open>delta[i, j]\<close>\<close>
  "index2 a k l = (if k < length a \<and> l < length (a ! k) then Inr (a ! k ! l) else Inl IndexError)"

definition window_step ::
  "nat \<Rightarrow> nat \<Rightarrow> nat \<Rightarrow> matrix \<Rightarrow> matrix \<Rightarrow> nat \<Rightarrow> nat \<Rightarrow> matrix \<Rightarrow> error + matrix" where
  \<comment> \<open>the body of the innermost loop\<close>
  "window_step pool_height pool_width sd x delta k l dx =
     (let w = window x (k * sd) (pool_height + k * sd) (l * sd) (pool_width + l * sd) in
      case np_max w of Inl e \<Rightarrow> Inl e
      | Inr m \<Rightarrow>
          (case index2 delta k l of Inl e \<Rightarrow> Inl e
           | Inr d \<Rightarrow>
               Inr (set_window dx (k * sd) (pool_height + k * sd) (l * sd) (pool_width + l * sd)
                      (ew1 (\<lambda>v. (if v = m then 1 else 0) * d) w))))"

definition MaxPool_derivative_original ::
  "nat \<Rightarrow> nat \<Rightarrow> nat \<Rightarrow> nat \<Rightarrow> nat \<Rightarrow> tensor4 \<Rightarrow> tensor4 \<Rightarrow> error + tensor4" where
  "MaxPool_derivative_original pool_height pool_width sd oh ow cached_x delta =
     (case shape4 cached_x of (n, channels, height, width) \<Rightarrow>
      sequence (map (\<lambda>i. sequence (map (\<lambda>j.
        for_loop [0..<oh] (\<lambda>k. for_loop [0..<ow]
          (window_step pool_height pool_width sd (cached_x ! i ! j) (delta ! i ! j) k))
          (ew1 (\<lambda>v. 0) (cached_x ! i ! j)))
        [0..<channels])) [0..<n]))"

definition MaxPool_derivative :: "maxpool \<Rightarrow> tensor4 \<Rightarrow> tensor4 \<Rightarrow> error + tensor4" where
  "MaxPool_derivative self y delta =
     (case pool_method self of None \<Rightarrow> Inl KeyError
      | Some method \<Rightarrow>
          if method = ''reshape'' then
            (case pool_x_reshaped self of None \<Rightarrow> Inl KeyError
             | Some x_reshaped_cache \<Rightarrow>
                 (case pool_x_cache self of None \<Rightarrow> Inl AttributeError
                  | Some cached_x \<Rightarrow>
                      Inr (MaxPool_derivative_reshape x_reshaped_cache cached_x y delta)))
          else if method = ''original'' then
            (case pool_x_cache self of None \<Rightarrow> Inl AttributeError
             | Some cached_x \<Rightarrow>
                 (case pool_shape self of (pool_height, pool_width) \<Rightarrow>
                    MaxPool_derivative_original pool_height pool_width (pool_stride self)
                      (nat (out_h (pool_dims self))) (nat (out_w (pool_dims self)))
                      cached_x delta))
          else Inl LayerError)"

text \<open>
  Shapes: a plane of \<open>h\<close> rows of \<open>w\<close> entries, and a four-dimensional array all of
  whose planes have that shape.
\<close>

definition rect :: "nat \<Rightarrow> nat \<Rightarrow> matrix \<Rightarrow> bool" where
  "rect h w plane \<longleftrightarrow> length plane = h \<and> list_all (\<lambda>r. length r = w) plane"

definition has_shape4 :: "nat \<times> nat \<times> nat \<times> nat \<Rightarrow> tensor4 \<Rightarrow> bool" where
  "has_shape4 s x \<longleftrightarrow>
     shape4 x = s \<and>
     (case s of (n, c, h, w) \<Rightarrow>
        list_all (\<lambda>sample. length sample = c \<and> list_all (rect h w) sample) x)"

text \<open>
  The notions in which the properties of pooling are stated: a window of a plane, the
  number of its entries that equal its maximum, the windows that cover a position.
\<close>

text \<open>The window \<open>(k, l)\<close> of a plane, as both paths slice it.\<close>

definition pool_window :: "nat \<Rightarrow> nat \<Rightarrow> nat \<Rightarrow> matrix \<Rightarrow> nat \<Rightarrow> nat \<Rightarrow> matrix" where
  "pool_window ph pw sd plane k l =
     window plane (k * sd) (ph + k * sd) (l * sd) (pw + l * sd)"

text \<open>The number of entries of a window that equal its maximum.\<close>

definition ties :: "matrix \<Rightarrow> nat" where
  "ties w = length (filter (\<lambda>v. v = np_max1 (concat w)) (concat w))"

definition covers :: "nat \<Rightarrow> nat \<Rightarrow> nat \<Rightarrow> nat \<Rightarrow> bool" where
  \<comment> \<open>index \<open>r\<close> lies in the slice \<^verbatim>\<open>k*sd : extent + k*sd\<close>\<close>
  "covers extent sd k r \<longleftrightarrow> k * sd \<le> r \<and> r < extent + k * sd"

text \<open>What window \<open>(k, l)\<close> writes at a position, by itself.\<close>

definition routed :: "nat \<Rightarrow> nat \<Rightarrow> nat \<Rightarrow> matrix \<Rightarrow> matrix \<Rightarrow> nat \<Rightarrow> nat \<Rightarrow> nat \<Rightarrow> nat \<Rightarrow> real" where
  "routed ph pw sd x delta k l r c =
     (if x ! r ! c = np_max1 (concat (window x (k * sd) (ph + k * sd) (l * sd) (pw + l * sd)))
      then delta ! k ! l else 0)"

text \<open>The windows that cover a position, in the order in which the loops visit them.\<close>

definition covering :: "nat \<Rightarrow> nat \<Rightarrow> nat \<Rightarrow> nat \<Rightarrow> nat \<Rightarrow> nat \<Rightarrow> nat \<Rightarrow> (nat \<times> nat) list" where
  "covering ph pw sd oh ow r c =
     filter (\<lambda>(k, l). covers ph sd k r \<and> covers pw sd l c) (List.product [0..<oh] [0..<ow])"

text \<open>The maximum of a tile, as a set maximum.\<close>

definition tile_values :: "matrix \<Rightarrow> nat \<Rightarrow> nat \<Rightarrow> nat \<Rightarrow> nat \<Rightarrow> real set" where
  "tile_values plane ph pw a c =
     (\<lambda>(b, d). plane ! (a * ph + b) ! (c * pw + d)) ` ({0..<ph} \<times> {0..<pw})"

section \<open>Example networks\<close>

text \<open>
  Small chains, built with the constructors above, on which the theorems below are
  evaluated. The optimizer of the examples returns the gradient as its step and has no
  state.
\<close>

definition plain_optimizers :: "unit optimizers" where
  "plain_optimizers = \<lparr> opt_run = (\<lambda>opt i g. (g, opt)), opt_update = (\<lambda>opt. opt) \<rparr>"

definition no_state :: "addr \<Rightarrow> unit normalize_state" where
  "no_state = (\<lambda>a. Normalize_init 0 0 0 () ())"

definition no_layers :: layers where
  "no_layers = (\<lambda>a. \<lparr> cls = SubLayer, parent = None, child = None, stored_root = None \<rparr>)"

definition assign_root :: "layers \<Rightarrow> addr \<Rightarrow> addr \<Rightarrow> layers" where
  "assign_root h self v = (case root_setter h self v of Inr h' \<Rightarrow> h' | Inl e \<Rightarrow> h)"

definition sigmoid_dropout :: layers where
  \<comment> \<open>a \<^verbatim>\<open>Sigmoid\<close> root at 0 with a \<^verbatim>\<open>Dropout(0.5)\<close> sub-layer at 1, as constructed\<close>
  "sigmoid_dropout =
     SubLayer_init (Layer_init no_layers 0 (Activation Sigmoid)) 1 0 (Dropout (1 / 2))"

definition sigmoid_dropout_rooted :: layers where
  \<comment> \<open>the same after \<^verbatim>\<open>sub.root = root\<close>\<close>
  "sigmoid_dropout_rooted = assign_root sigmoid_dropout 1 0"

definition sigmoid_dropout_cost :: layers where
  \<comment> \<open>the chain continued with a cross-entropy cost layer at 2\<close>
  "sigmoid_dropout_cost =
     assign_root (SubLayer_init sigmoid_dropout_rooted 2 1 (CostLayer Cross_Entropy)) 2 0"

definition sigmoid_dropout_astray :: layers where
  \<comment> \<open>the two-node chain with \<^verbatim>\<open>_root\<close> assigned a \<^verbatim>\<open>Tanh\<close> layer that is no ancestor\<close>
  "sigmoid_dropout_astray =
     assign_root (Layer_init sigmoid_dropout 5 (Activation Tanh)) 1 5"

definition sigmoid_cost :: layers where
  \<comment> \<open>a \<^verbatim>\<open>Sigmoid\<close> root at 0 with a cross-entropy cost layer at 1, as constructed\<close>
  "sigmoid_cost =
     SubLayer_init (Layer_init no_layers 0 (Activation Sigmoid)) 1 0 (CostLayer Cross_Entropy)"

definition softmax_nll :: layers where
  \<comment> \<open>a \<^verbatim>\<open>Softmax\<close> root at 0 with a log-likelihood cost layer at 1\<close>
  "softmax_nll =
     assign_root (SubLayer_init (Layer_init no_layers 0 (Activation Softmax)) 1 0
                    (CostLayer Log_Likelihood)) 1 0"

definition tanh_mse :: layers where
  \<comment> \<open>a \<^verbatim>\<open>Tanh\<close> root at 0 with a squared-error cost layer at 1\<close>
  "tanh_mse =
     assign_root (SubLayer_init (Layer_init no_layers 0 (Activation Tanh)) 1 0
                    (CostLayer MSE)) 1 0"

text \<open>
  Pooling layers as their constructor leaves them, and a 4x4 input of one sample and
  one channel.
\<close>

definition pool_2x2 :: maxpool where
  \<comment> \<open>\<^verbatim>\<open>MaxPool(((1, 4, 4), (2, 2)), stride=2)\<close>\<close>
  "pool_2x2 = \<lparr> pool_stride = 2, pool_shape = (2, 2),
      pool_dims = \<lparr> n_channels = 1, n_filters = 1, out_h = 2, out_w = 2 \<rparr>,
      pool_x_cache = None, pool_method = None, pool_x_reshaped = None \<rparr>"

definition pool_tile :: maxpool where
  \<comment> \<open>\<^verbatim>\<open>MaxPool(((1, 2, 2), (2, 2)), stride=2)\<close>\<close>
  "pool_tile = \<lparr> pool_stride = 2, pool_shape = (2, 2),
      pool_dims = \<lparr> n_channels = 1, n_filters = 1, out_h = 1, out_w = 1 \<rparr>,
      pool_x_cache = None, pool_method = None, pool_x_reshaped = None \<rparr>"

definition pool_row :: maxpool where
  \<comment> \<open>\<^verbatim>\<open>MaxPool(((1, 2, 3), (1, 2)), stride=2)\<close>\<close>
  "pool_row = \<lparr> pool_stride = 2, pool_shape = (1, 2),
      pool_dims = \<lparr> n_channels = 1, n_filters = 1, out_h = 1, out_w = 1 \<rparr>,
      pool_x_cache = None, pool_method = None, pool_x_reshaped = None \<rparr>"

definition pool_overlap :: maxpool where
  \<comment> \<open>\<^verbatim>\<open>MaxPool(((1, 1, 3), (1, 2)), stride=1)\<close>\<close>
  "pool_overlap = \<lparr> pool_stride = 1, pool_shape = (1, 2),
      pool_dims = \<lparr> n_channels = 1, n_filters = 1, out_h = 1, out_w = 2 \<rparr>,
      pool_x_cache = None, pool_method = None, pool_x_reshaped = None \<rparr>"

definition x44 :: tensor4 where
  "x44 = [[[[1, 2, 3, 4], [5, 6, 7, 8], [9, 10, 11, 12], [13, 14, 15, 16]]]]"

section \<open>Properties of shape validation\<close>

lemma int_truediv_nonneg:
  "0 \<le> a \<Longrightarrow> 0 < b \<Longrightarrow> int_truediv a b = a div b"
  by (cases "a = 0") (simp_all add: int_truediv_def)

text \<open>
  What the check of \<^verbatim>\<open>ConvLayer.feed_shape\<close> really tests: the padded \<^emph>\<open>width\<close>
  against the filter \<^emph>\<open>height\<close> and the padded \<^emph>\<open>height\<close> against the filter
  \<^emph>\<open>width\<close>.
\<close>

lemma ConvLayer_feed_shape_raises_iff:
  "ConvLayer_feed_shape s p (c, H, W) (f, kh, kw) = Inl BuildLayerError \<longleftrightarrow>
     s \<noteq> 0 \<and> ((W + 2 * p - kh) mod s \<noteq> 0 \<or> (H + 2 * p - kw) mod s \<noteq> 0)"
  by (simp add: ConvLayer_feed_shape_def Let_def)

lemma ConvPoolLayer_feed_shape_raises_iff:
  "ConvPoolLayer_feed_shape s p (c, H, W) (kh, kw) = Inl BuildLayerError \<longleftrightarrow>
     s \<noteq> 0 \<and> ((W + 2 * p - kh) mod s \<noteq> 0 \<or> (H + 2 * p - kw) mod s \<noteq> 0)"
  by (simp add: ConvPoolLayer_feed_shape_def Let_def)

text \<open>
  C1. The claim: construction raises a build error exactly when
  \<open>(H + 2p - kh) mod s \<noteq> 0\<close> or \<open>(W + 2p - kw) mod s \<noteq> 0\<close>, height paired with
  kernel height and width with kernel width. The source binds
  \<^verbatim>\<open>full_height, full_width = width + 2 * padding, height + 2 * padding\<close>, the two
  axes exchanged, so the code fails the claim in both directions on non-square shapes:
  a 5x4 input with a 3x2 kernel and stride 2 is compatible (\<open>(5 - 3) mod 2 = 0\<close>,
  \<open>(4 - 2) mod 2 = 0\<close>) and is rejected; a 4x5 input with the same kernel is
  incompatible (\<open>(4 - 3) mod 2 = 1\<close>) and is accepted. The pooling layer repeats the
  same lines.
\<close>

theorem feed_shape_exchanges_axes:
  "ConvLayer_feed_shape 2 0 (1, 5, 4) (1, 3, 2) = Inl BuildLayerError \<and>
   ((5::int) + 2 * 0 - 3) mod 2 = 0 \<and> ((4::int) + 2 * 0 - 2) mod 2 = 0 \<and>
   ConvLayer_feed_shape 2 0 (1, 4, 5) (1, 3, 2) =
     Inr \<lparr> n_channels = 1, n_filters = 1, out_h = 1, out_w = 2 \<rparr> \<and>
   ((4::int) + 2 * 0 - 3) mod 2 \<noteq> 0 \<and>
   ConvPoolLayer_feed_shape 2 0 (1, 5, 4) (3, 2) = Inl BuildLayerError \<and>
   ConvPoolLayer_feed_shape 2 0 (1, 4, 5) (3, 2) =
     Inr \<lparr> n_channels = 1, n_filters = 1, out_h = 1, out_w = 2 \<rparr>"
  by (simp add: ConvLayer_feed_shape_def ConvPoolLayer_feed_shape_def int_truediv_def)

theorem feed_shape_exchanges_axes_witness:
  "ConvLayer_feed_shape 2 0 (1, 5, 4) (1, 3, 2) = Inl BuildLayerError"
  by (rule conjunct1 [OF feed_shape_exchanges_axes])

text \<open>
  The quotient truncated toward zero is the floor exactly when it is whole or not
  negative.
\<close>

lemma int_truediv_dvd:
  assumes "s dvd a"
  shows "int_truediv a s = a div s"
proof (cases "s = 0")
  case True
  with assms show ?thesis by (simp add: int_truediv_def)
next
  case False
  from assms obtain k where a: "a = s * k" ..
  have "sgn s * sgn s = 1"
    using False by (cases "0 < s") simp_all
  then have "sgn k * \<bar>k\<bar> * (sgn s * sgn s) = k"
    by (simp add: mult_sgn_abs)
  then have "sgn (s * k) * sgn s * (\<bar>s * k\<bar> div \<bar>s\<bar>) = k"
    using False by (simp add: abs_mult sgn_mult ac_simps)
  with False show ?thesis
    by (simp add: int_truediv_def a)
qed

lemma int_truediv_eq_div_iff:
  assumes "s \<noteq> 0"
  shows "int_truediv a s = a div s \<longleftrightarrow> s dvd a \<or> 0 \<le> a * s"
proof -
  consider "a = 0" | "0 < a" "0 < s" | "a < 0" "s < 0" | "0 < a" "s < 0" | "a < 0" "0 < s"
    using assms by linarith
  then show ?thesis
  proof cases
    case 1
    then show ?thesis by (simp add: int_truediv_def)
  next
    case 2
    then show ?thesis by (simp add: int_truediv_def)
  next
    case 3
    then have "\<bar>a\<bar> div \<bar>s\<bar> = a div s"
      using div_minus_minus [of a s] by simp
    with 3 show ?thesis
      by (simp add: int_truediv_def mult_nonpos_nonpos)
  next
    case 4
    have "a div s = a div - (- s)"
      by simp
    also have "\<dots> = (if a mod (- s) = 0 then - (a div - s) else - (a div - s) - 1)"
      using 4 by (intro zdiv_zminus2_eq_if) simp
    finally have d: "a div s = (if s dvd a then - (a div - s) else - (a div - s) - 1)"
      by (simp add: mod_eq_0_iff_dvd)
    have "\<not> 0 \<le> a * s"
      using 4 by (simp add: mult_pos_neg not_le)
    with 4 d show ?thesis
      by (simp add: int_truediv_def)
  next
    case 5
    have "a div s = (- (- a)) div s"
      by simp
    also have "\<dots> = (if (- a) mod s = 0 then - ((- a) div s) else - ((- a) div s) - 1)"
      using 5 by (intro zdiv_zminus1_eq_if) simp
    finally have d: "a div s = (if s dvd a then - ((- a) div s) else - ((- a) div s) - 1)"
      by (simp add: mod_eq_0_iff_dvd)
    have "\<not> 0 \<le> a * s"
      using 5 by (simp add: mult_neg_pos not_le)
    with 5 d show ?thesis
      by (simp add: int_truediv_def)
  qed
qed

text \<open>
  C8, as stated, fails for pooling: the source computes
  \<^verbatim>\<open>int((height - pool_height) / stride) + 1\<close>, and \<^verbatim>\<open>int\<close> truncates toward zero where
  the claim takes the floor. The check that admits a pooling layer counts the padding
  and the size formula leaves it out, so a window larger than the input is admitted: a
  1x1 input pooled by a 2x2 window with padding 2 and stride 3 meets the invariant
  (\<open>(1 + 4 - 2) mod 3 = 0\<close> on both axes), is constructed and gets \<open>out_h = 1\<close>, while
  \<open>\<lfloor>(1 - 2) / 3\<rfloor> + 1 = 0\<close>.
\<close>

theorem feed_shape_output_size_counterexample:
  "ConvPoolLayer_feed_shape 3 2 (1, 1, 1) (2, 2) =
     Inr \<lparr> n_channels = 1, n_filters = 1, out_h = 1, out_w = 1 \<rparr> \<and>
   ((1::int) + 2 * 2 - 2) mod 3 = 0 \<and>
   (1::int) \<noteq> (1 - 2) div 3 + 1"
  by (simp add: ConvPoolLayer_feed_shape_def int_truediv_def)

text \<open>
  C8, amended: a constructed convolutional layer that meets the invariant
  \<open>(H + 2p - kh) mod s = 0\<close> and \<open>(W + 2p - kw) mod s = 0\<close> has the output size
  \<open>\<lfloor>(H + 2p - kh) / s\<rfloor> + 1\<close> by \<open>\<lfloor>(W + 2p - kw) / s\<rfloor> + 1\<close>, as the claim says. A
  constructed pooling layer has the size \<^verbatim>\<open>int((H - kh) / s) + 1\<close> by
  \<^verbatim>\<open>int((W - kw) / s) + 1\<close>, the padding left out and the quotient truncated toward
  zero; on either axis that is the claim's \<open>\<lfloor>(H - kh) / s\<rfloor> + 1\<close> exactly when the stride
  divides the difference or the quotient is not negative, as it is for a positive
  stride and a window no larger than the input.
\<close>

theorem feed_shape_output_size:
  "(ConvLayer_feed_shape s p (c, H, W) (f, kh, kw) = Inr d \<and>
    (H + 2 * p - kh) mod s = 0 \<and> (W + 2 * p - kw) mod s = 0 \<longrightarrow>
      out_h d = (H + 2 * p - kh) div s + 1 \<and> out_w d = (W + 2 * p - kw) div s + 1) \<and>
   (ConvPoolLayer_feed_shape s p (c, H, W) (kh, kw) = Inr d' \<longrightarrow>
      out_h d' = int_truediv (H - kh) s + 1 \<and>
      out_w d' = int_truediv (W - kw) s + 1 \<and>
      (out_h d' = (H - kh) div s + 1 \<longleftrightarrow> s dvd (H - kh) \<or> 0 \<le> (H - kh) * s) \<and>
      (out_w d' = (W - kw) div s + 1 \<longleftrightarrow> s dvd (W - kw) \<or> 0 \<le> (W - kw) * s))"
proof -
  have conv: "out_h d = (H + 2 * p - kh) div s + 1 \<and> out_w d = (W + 2 * p - kw) div s + 1"
    if built: "ConvLayer_feed_shape s p (c, H, W) (f, kh, kw) = Inr d"
      and fits: "(H + 2 * p - kh) mod s = 0" "(W + 2 * p - kw) mod s = 0"
  proof -
    from built have "out_h d = int_truediv (H + 2 * p - kh) s + 1"
      and "out_w d = int_truediv (W + 2 * p - kw) s + 1"
      by (auto simp: ConvLayer_feed_shape_def Let_def split: if_splits)
    with fits show ?thesis
      by (simp add: int_truediv_dvd mod_eq_0_iff_dvd)
  qed
  have pool: "out_h d' = int_truediv (H - kh) s + 1 \<and> out_w d' = int_truediv (W - kw) s + 1 \<and>
              s \<noteq> 0"
    if "ConvPoolLayer_feed_shape s p (c, H, W) (kh, kw) = Inr d'"
    using that by (auto simp: ConvPoolLayer_feed_shape_def Let_def split: if_splits)
  show ?thesis
    using conv pool
      int_truediv_eq_div_iff [of s "H - kh"] int_truediv_eq_div_iff [of s "W - kw"]
    by auto
qed

theorem feed_shape_output_size_witness:
  "ConvLayer_feed_shape 2 1 (3, 5, 7) (4, 3, 3) =
     Inr \<lparr> n_channels = 3, n_filters = 4, out_h = 3, out_w = 4 \<rparr> \<and>
   ((5::int) + 2 * 1 - 3) mod 2 = 0 \<and> ((7::int) + 2 * 1 - 3) mod 2 = 0 \<and>
   out_h \<lparr> n_channels = 3, n_filters = 4, out_h = 3, out_w = 4 \<rparr> = (5 + 2 * 1 - 3) div 2 + 1 \<and>
   out_w \<lparr> n_channels = 3, n_filters = 4, out_h = 3, out_w = 4 \<rparr> = (7 + 2 * 1 - 3) div 2 + 1 \<and>
   ConvPoolLayer_feed_shape 2 0 (3, 4, 6) (2, 2) =
     Inr \<lparr> n_channels = 3, n_filters = 3, out_h = 2, out_w = 3 \<rparr> \<and>
   out_h \<lparr> n_channels = 3, n_filters = 3, out_h = 2, out_w = 3 \<rparr> = int_truediv (4 - 2) 2 + 1 \<and>
   out_h \<lparr> n_channels = 3, n_filters = 3, out_h = 2, out_w = 3 \<rparr> = (4 - 2) div 2 + 1 \<and>
   out_w \<lparr> n_channels = 3, n_filters = 3, out_h = 2, out_w = 3 \<rparr> = (6 - 2) div 2 + 1 \<and>
   ConvPoolLayer_feed_shape 3 2 (1, 1, 1) (2, 2) =
     Inr \<lparr> n_channels = 1, n_filters = 1, out_h = 1, out_w = 1 \<rparr> \<and>
   out_h \<lparr> n_channels = 1, n_filters = 1, out_h = 1, out_w = 1 \<rparr> = int_truediv (1 - 2) 3 + 1 \<and>
   out_h \<lparr> n_channels = 1, n_filters = 1, out_h = 1, out_w = 1 \<rparr> \<noteq> (1 - 2) div 3 + 1"
proof -
  have c: "ConvLayer_feed_shape 2 1 (3, 5, 7) (4, 3, 3) =
     Inr \<lparr> n_channels = 3, n_filters = 4, out_h = 3, out_w = 4 \<rparr>"
    by (simp add: ConvLayer_feed_shape_def int_truediv_def)
  have q: "ConvPoolLayer_feed_shape 2 0 (3, 4, 6) (2, 2) =
     Inr \<lparr> n_channels = 3, n_filters = 3, out_h = 2, out_w = 3 \<rparr>"
    by (simp add: ConvPoolLayer_feed_shape_def int_truediv_def)
  have r: "ConvPoolLayer_feed_shape 3 2 (1, 1, 1) (2, 2) =
     Inr \<lparr> n_channels = 1, n_filters = 1, out_h = 1, out_w = 1 \<rparr>"
    by (simp add: ConvPoolLayer_feed_shape_def int_truediv_def)
  have t: "int_truediv (4 - 2) 2 = 1" "int_truediv (1 - 2) 3 = 0"
    by (simp_all add: int_truediv_def)
  show ?thesis
    using c q r
      feed_shape_output_size [where s = 2 and p = 1 and c = 3 and H = 5 and W = 7
        and f = 4 and kh = 3 and kw = 3
        and d = "\<lparr> n_channels = 3, n_filters = 4, out_h = 3, out_w = 4 \<rparr>"]
      feed_shape_output_size [where s = 2 and p = 0 and c = 3 and H = 4 and W = 6
        and kh = 2 and kw = 2
        and d' = "\<lparr> n_channels = 3, n_filters = 3, out_h = 2, out_w = 3 \<rparr>"]
      feed_shape_output_size [where s = 3 and p = 2 and c = 1 and H = 1 and W = 1
        and kh = 2 and kw = 2
        and d' = "\<lparr> n_channels = 1, n_filters = 1, out_h = 1, out_w = 1 \<rparr>"]
    by (simp add: t)
qed

section \<open>Properties of backward propagation\<close>

lemmas chain_defs =
  sigmoid_dropout_def sigmoid_dropout_rooted_def sigmoid_dropout_cost_def
  sigmoid_dropout_astray_def softmax_nll_def tanh_mse_def assign_root_def root_setter_def
  SubLayer_init_def Layer_init_def no_layers_def Let_def

lemmas array_defs =
  ew_def ew1_def ew_row_def np_dot_def np_T_def shape1_def np_argmax1_def np_max1_def
  np_isub_at_def np_get_at_def np_set_at_def np_index_pairs_def in_bounds_def

lemma name_Sigmoid: "name c = ''Sigmoid'' \<longleftrightarrow> c = Activation Sigmoid"
proof (cases c)
  case (Activation a)
  then show ?thesis by (cases a) simp_all
next
  case (CostLayer f)
  then show ?thesis by (cases f) simp_all
qed simp_all

lemma cost_function_name_Cross_Entropy:
  "cost_function_name c = ''Cross Entropy'' \<longleftrightarrow> c = Cross_Entropy"
  by (cases c) simp_all

lemma cost_function_name_Log_Likelihood:
  "cost_function_name c = ''Log Likelihood'' \<longleftrightarrow> c = Log_Likelihood"
  by (cases c) simp_all

lemma derivative_parent_links:
  "derivative opt (\<lambda>a. (h a)\<lparr> parent := P a \<rparr>) self y delta st = derivative opt h self y delta st"
  by (simp add: derivative_def)

lemma walk_parents_no_parent:
  assumes "walk_parents h p = Some r"
  shows "parent (h r) = None"
  by (rule walk_parents.raw_induct [where P = "\<lambda>h p r. parent (h r) = None", OF _ assms])
     (auto split: option.splits)

lemma derivative_links:
  "derivative opt (\<lambda>a. (h a)\<lparr> parent := P a, stored_root := R a \<rparr>) self y delta st =
     derivative opt h self y delta st"
  by (simp add: derivative_def)

lemma walk_parents_link:
  assumes "walk_parents h p = Some r"
  shows "(parent_link h)\<^sup>*\<^sup>* p r \<and> parent (h r) = None"
proof (rule walk_parents.raw_induct
    [where P = "\<lambda>h p r. (parent_link h)\<^sup>*\<^sup>* p r \<and> parent (h r) = None", OF _ assms])
  fix walk h p r
  assume step: "\<And>h p r. walk h p = Some r \<Longrightarrow> (parent_link h)\<^sup>*\<^sup>* p r \<and> parent (h r) = None"
    and res: "(case parent (h p) of None \<Rightarrow> Some p | Some q \<Rightarrow> walk h q) = Some r"
  show "(parent_link h)\<^sup>*\<^sup>* p r \<and> parent (h r) = None"
  proof (cases "parent (h p)")
    case None
    with res show ?thesis by simp
  next
    case (Some q)
    with res have "walk h q = Some r" by simp
    from step [OF this] have "(parent_link h)\<^sup>*\<^sup>* q r" and "parent (h r) = None"
      by simp_all
    moreover have "parent_link h p q"
      using Some by (simp add: parent_link_def)
    ultimately show ?thesis
      by (simp add: converse_rtranclp_into_rtranclp)
  qed
qed

lemma link_walk_parents:
  assumes "(parent_link h)\<^sup>*\<^sup>* p r" and "parent (h r) = None"
  shows "walk_parents h p = Some r"
  using assms
proof (induction rule: converse_rtranclp_induct)
  case base
  then show ?case
    by (subst walk_parents.simps) simp
next
  case (step a b)
  then show ?case
    by (subst walk_parents.simps) (simp add: parent_link_def)
qed

text \<open>
  C2, as stated, fails: a sub-layer whose child is itself a sub-layer takes the first
  branch of \<^verbatim>\<open>Layer.bp\<close> and returns \<^verbatim>\<open>self._derivative(y, prev_delta)\<close>, with neither
  the weight transpose nor the root's derivative. In the chain Sigmoid, Dropout(0.5),
  cost layer, with \<open>y = [[1/2]]\<close>, \<open>w = [[3]]\<close> and \<open>prev_delta = [[1]]\<close>, the claim's
  expression for the dropout node is \<open>[[3/2]]\<close> and \<^verbatim>\<open>bp\<close> returns \<open>[[2]]\<close>.
\<close>

theorem Layer_bp_sub_layer_counterexample:
  "is_SubLayer (cls (sigmoid_dropout_cost 1)) \<and>
   stored_root (sigmoid_dropout_cost 1) = Some 0 \<and>
   derivative plain_optimizers sigmoid_dropout_cost 0 [[1 / 2]] None no_state =
     (Inr [[1 / 4]], no_state) \<and>
   derivative plain_optimizers sigmoid_dropout_cost 1 [[1 / 2]]
     (Some (ew (*) (np_dot [[1]] (np_T [[3]])) [[1 / 4]])) no_state = (Inr [[3 / 2]], no_state) \<and>
   Layer_bp plain_optimizers sigmoid_dropout_cost 1 [[1 / 2]] [[3]] [[1]] no_state =
     (Inr [[2]], no_state)"
  by (simp add: Layer_bp_def derivative_def chain_defs array_defs)

text \<open>
  C2, amended: for a sub-layer node whose child is itself a sub-layer, \<^verbatim>\<open>bp\<close> returns
  \<^verbatim>\<open>derivative(y, prev_delta)\<close>; for a sub-layer node with no child, or a child that is
  not a sub-layer, it returns \<^verbatim>\<open>derivative(y, prev_delta . w^T * _root.derivative(y))\<close>,
  where \<^verbatim>\<open>_root\<close> is the node's stored root attribute.
\<close>

theorem Layer_bp_sub_layer:
  assumes "is_SubLayer (cls (h self))"
  shows "((\<exists>c. child (h self) = Some c \<and> is_SubLayer (cls (h c))) \<longrightarrow>
            Layer_bp opt h self y w prev_delta st =
              derivative opt h self y (Some prev_delta) st) \<and>
         ((\<forall>c. child (h self) = Some c \<longrightarrow> \<not> is_SubLayer (cls (h c))) \<longrightarrow>
            (\<forall>r d st'. stored_root (h self) = Some r \<and>
                 derivative opt h r y None st = (Inr d, st') \<longrightarrow>
               Layer_bp opt h self y w prev_delta st =
                 derivative opt h self y
                   (Some (ew (*) (np_dot prev_delta (np_T w)) d)) st'))"
  using assms by (auto simp: Layer_bp_def split: option.splits)

theorem Layer_bp_sub_layer_witness:
  "is_SubLayer (cls (sigmoid_dropout_cost 1)) \<and>
   child (sigmoid_dropout_cost 1) = Some 2 \<and> is_SubLayer (cls (sigmoid_dropout_cost 2)) \<and>
   Layer_bp plain_optimizers sigmoid_dropout_cost 1 [[1 / 2]] [[3]] [[1]] no_state =
     derivative plain_optimizers sigmoid_dropout_cost 1 [[1 / 2]] (Some [[1]]) no_state \<and>
   is_SubLayer (cls (sigmoid_dropout_rooted 1)) \<and>
   child (sigmoid_dropout_rooted 1) = None \<and>
   stored_root (sigmoid_dropout_rooted 1) = Some 0 \<and>
   derivative plain_optimizers sigmoid_dropout_rooted 0 [[1 / 2]] None no_state =
     (Inr [[1 / 4]], no_state) \<and>
   Layer_bp plain_optimizers sigmoid_dropout_rooted 1 [[1 / 2]] [[3]] [[1]] no_state =
     derivative plain_optimizers sigmoid_dropout_rooted 1 [[1 / 2]]
       (Some (ew (*) (np_dot [[1]] (np_T [[3]])) [[1 / 4]])) no_state"
proof -
  have a: "is_SubLayer (cls (sigmoid_dropout_cost 1))"
    and b: "is_SubLayer (cls (sigmoid_dropout_rooted 1))"
    by (simp_all add: chain_defs)
  have c: "child (sigmoid_dropout_cost 1) = Some 2 \<and> is_SubLayer (cls (sigmoid_dropout_cost 2))"
    by (simp add: chain_defs)
  have d: "child (sigmoid_dropout_rooted 1) = None \<and>
           stored_root (sigmoid_dropout_rooted 1) = Some 0 \<and>
           derivative plain_optimizers sigmoid_dropout_rooted 0 [[1 / 2]] None no_state =
             (Inr [[1 / 4]], no_state)"
    by (simp add: derivative_def chain_defs array_defs)
  show ?thesis
    using a b c d
      Layer_bp_sub_layer [where h = sigmoid_dropout_cost and self = 1
        and opt = plain_optimizers and y = "[[1 / 2]]" and w = "[[3]]"
        and prev_delta = "[[1]]" and st = no_state]
      Layer_bp_sub_layer [where h = sigmoid_dropout_rooted and self = 1
        and opt = plain_optimizers and y = "[[1 / 2]]" and w = "[[3]]"
        and prev_delta = "[[1]]" and st = no_state]
    by simp
qed

text \<open>
  C7, as stated, fails: \<^verbatim>\<open>bp\<close> and \<^verbatim>\<open>bp_first\<close> read the attribute \<^verbatim>\<open>self._root\<close>, not
  the \<^verbatim>\<open>root\<close> property. In the chain Sigmoid, Dropout(0.5) as the constructors
  leave it, walking the parent links from the dropout node finds the Sigmoid layer, for
  which the claim's expression is \<open>[[3/2]]\<close>, while \<^verbatim>\<open>_root\<close> is \<^verbatim>\<open>None\<close> and \<^verbatim>\<open>bp\<close>
  raises; with \<^verbatim>\<open>_root\<close> assigned a Tanh layer that is no ancestor, the walk still finds
  the Sigmoid layer and \<^verbatim>\<open>bp\<close> uses the Tanh derivative, returning \<open>[[9/2]]\<close>.
\<close>

theorem stored_root_counterexample:
  "SubLayer_root sigmoid_dropout 1 = Some (Inr 0) \<and>
   derivative plain_optimizers sigmoid_dropout 0 [[1 / 2]] None no_state =
     (Inr [[1 / 4]], no_state) \<and>
   derivative plain_optimizers sigmoid_dropout 1 [[1 / 2]]
     (Some (ew (*) (np_dot [[1]] (np_T [[3]])) [[1 / 4]])) no_state = (Inr [[3 / 2]], no_state) \<and>
   Layer_bp plain_optimizers sigmoid_dropout 1 [[1 / 2]] [[3]] [[1]] no_state =
     (Inl AttributeError, no_state) \<and>
   SubLayer_root sigmoid_dropout_astray 1 = Some (Inr 0) \<and>
   Layer_bp plain_optimizers sigmoid_dropout_astray 1 [[1 / 2]] [[3]] [[1]] no_state =
     (Inr [[9 / 2]], no_state)"
proof -
  have "walk_parents sigmoid_dropout 0 = Some 0"
    by (subst walk_parents.simps) (simp add: chain_defs)
  moreover have "walk_parents sigmoid_dropout_astray 0 = Some 0"
    by (subst walk_parents.simps) (simp add: chain_defs)
  moreover have "parent (sigmoid_dropout 1) = Some 0" "parent (sigmoid_dropout_astray 1) = Some 0"
    "is_SubLayer (cls (sigmoid_dropout 1))" "is_SubLayer (cls (sigmoid_dropout_astray 1))"
    by (simp_all add: chain_defs)
  ultimately have "SubLayer_root sigmoid_dropout 1 = Some (Inr 0)"
    "SubLayer_root sigmoid_dropout_astray 1 = Some (Inr 0)"
    by (simp_all add: SubLayer_root_def)
  then show ?thesis
    by (simp add: Layer_bp_def derivative_def chain_defs array_defs power2_eq_square)
qed

text \<open>
  C7, amended: for every sub-layer node the root that \<^verbatim>\<open>bp\<close> and \<^verbatim>\<open>CostLayer.bp_first\<close>
  use is the node stored in the per-node attribute \<^verbatim>\<open>_root\<close>, and what they return
  does not depend on the parent links at all. \<^verbatim>\<open>bp\<close> reads \<^verbatim>\<open>_root\<close> when the node has
  no child or a child that is not a sub-layer: it raises when \<^verbatim>\<open>_root\<close> is unset (as
  after construction) and otherwise takes the derivative of the stored node as the
  factor; when the child is a sub-layer it returns \<^verbatim>\<open>derivative(y, prev_delta)\<close> whatever
  \<^verbatim>\<open>_root\<close> and the parent links are. \<^verbatim>\<open>bp_first\<close> on a cost layer raises when \<^verbatim>\<open>_root\<close>
  is unset, and otherwise tests the class of the stored node and takes its derivative.
  The \<^verbatim>\<open>root\<close> property is the derived reference: on a sub-layer it returns \<open>r\<close> exactly
  when \<open>r\<close> is reached from the node's parent along parent links and has no parent
  itself, and it raises on a sub-layer without a parent.
\<close>

theorem stored_root_is_used:
  "Layer_bp opt (\<lambda>a. (h a)\<lparr> parent := P a \<rparr>) self y w prev_delta st =
     Layer_bp opt h self y w prev_delta st \<and>
   CostLayer_bp_first opt (\<lambda>a. (h a)\<lparr> parent := P a \<rparr>) self y y_pred br st =
     CostLayer_bp_first opt h self y y_pred br st \<and>
   (is_SubLayer (cls (h self)) \<and>
    (\<forall>c. child (h self) = Some c \<longrightarrow> \<not> is_SubLayer (cls (h c))) \<longrightarrow>
      Layer_bp opt h self y w prev_delta st =
        (case stored_root (h self) of
           None \<Rightarrow> (Inl AttributeError, st)
         | Some r \<Rightarrow>
             (case derivative opt h r y None st of
                (Inl e, st') \<Rightarrow> (Inl e, st')
              | (Inr d, st') \<Rightarrow>
                  derivative opt h self y (Some (ew (*) (np_dot prev_delta (np_T w)) d)) st'))) \<and>
   (is_SubLayer (cls (h self)) \<and>
    (\<exists>c. child (h self) = Some c \<and> is_SubLayer (cls (h c))) \<longrightarrow>
      Layer_bp opt (\<lambda>a. (h a)\<lparr> parent := P a, stored_root := R a \<rparr>) self y w prev_delta st =
        derivative opt h self y (Some prev_delta) st) \<and>
   (cls (h self) = CostLayer f \<longrightarrow>
      CostLayer_bp_first opt h self y y_pred br st =
        (case stored_root (h self) of
           None \<Rightarrow> (Inl AttributeError, br, st)
         | Some r \<Rightarrow>
             if cls (h r) = Activation Sigmoid \<and> f = Cross_Entropy
             then (Inr (ew (-) (ew (*) y (ew1 (\<lambda>v. 1 - v) y_pred))
                               (ew (*) (ew1 (\<lambda>v. 1 - v) y) y_pred)), br, st)
             else if f = Log_Likelihood
             then (case cost_function_apply f br y y_pred of
                     (Inl e, br') \<Rightarrow> (Inl e, br', st)
                   | (Inr g, br') \<Rightarrow> (Inr (ew1 (\<lambda>v. - v / 4) g), br', st))
             else (case cost_function_apply f br y y_pred of
                     (Inl e, br') \<Rightarrow> (Inl e, br', st)
                   | (Inr g, br') \<Rightarrow>
                       (case derivative opt h r y_pred None st of
                          (Inl e, st') \<Rightarrow> (Inl e, br', st')
                        | (Inr d, st') \<Rightarrow> (Inr (ew (*) (ew1 uminus g) d), br', st'))))) \<and>
   (is_SubLayer (cls (h self)) \<longrightarrow>
      (SubLayer_root h self = Some (Inr r) \<longleftrightarrow>
         (\<exists>p. parent (h self) = Some p \<and> (parent_link h)\<^sup>*\<^sup>* p r \<and> parent (h r) = None)) \<and>
      (parent (h self) = None \<longrightarrow> SubLayer_root h self = Some (Inl AttributeError)))"
proof -
  have bp: "Layer_bp opt (\<lambda>a. (h a)\<lparr> parent := P a \<rparr>) self y w prev_delta st =
     Layer_bp opt h self y w prev_delta st"
    by (simp add: Layer_bp_def derivative_parent_links split: option.splits prod.splits sum.splits)
  have first: "CostLayer_bp_first opt (\<lambda>a. (h a)\<lparr> parent := P a \<rparr>) self y y_pred br st =
     CostLayer_bp_first opt h self y y_pred br st"
    by (simp add: CostLayer_bp_first_def derivative_parent_links
          split: option.splits prod.splits sum.splits layer_class.splits)
  have reads: "Layer_bp opt h self y w prev_delta st =
        (case stored_root (h self) of
           None \<Rightarrow> (Inl AttributeError, st)
         | Some r \<Rightarrow>
             (case derivative opt h r y None st of
                (Inl e, st') \<Rightarrow> (Inl e, st')
              | (Inr d, st') \<Rightarrow>
                  derivative opt h self y (Some (ew (*) (np_dot prev_delta (np_T w)) d)) st'))"
    if "is_SubLayer (cls (h self))"
       "\<forall>c. child (h self) = Some c \<longrightarrow> \<not> is_SubLayer (cls (h c))"
    using that by (auto simp: Layer_bp_def split: option.splits)
  have skips: "Layer_bp opt (\<lambda>a. (h a)\<lparr> parent := P a, stored_root := R a \<rparr>) self y w
                 prev_delta st = derivative opt h self y (Some prev_delta) st"
    if "is_SubLayer (cls (h self))" "\<exists>c. child (h self) = Some c \<and> is_SubLayer (cls (h c))"
    using that derivative_links [where opt = opt and h = h and P = P and R = R and self = self
        and y = y and delta = "Some prev_delta" and st = st]
    by (auto simp: Layer_bp_def)
  have cost: "CostLayer_bp_first opt h self y y_pred br st =
        (case stored_root (h self) of
           None \<Rightarrow> (Inl AttributeError, br, st)
         | Some r \<Rightarrow>
             if cls (h r) = Activation Sigmoid \<and> f = Cross_Entropy
             then (Inr (ew (-) (ew (*) y (ew1 (\<lambda>v. 1 - v) y_pred))
                               (ew (*) (ew1 (\<lambda>v. 1 - v) y) y_pred)), br, st)
             else if f = Log_Likelihood
             then (case cost_function_apply f br y y_pred of
                     (Inl e, br') \<Rightarrow> (Inl e, br', st)
                   | (Inr g, br') \<Rightarrow> (Inr (ew1 (\<lambda>v. - v / 4) g), br', st))
             else (case cost_function_apply f br y y_pred of
                     (Inl e, br') \<Rightarrow> (Inl e, br', st)
                   | (Inr g, br') \<Rightarrow>
                       (case derivative opt h r y_pred None st of
                          (Inl e, st') \<Rightarrow> (Inl e, br', st')
                        | (Inr d, st') \<Rightarrow> (Inr (ew (*) (ew1 uminus g) d), br', st'))))"
    if "cls (h self) = CostLayer f"
    using that
    by (simp add: CostLayer_bp_first_def name_Sigmoid cost_function_name_Cross_Entropy
          cost_function_name_Log_Likelihood split: option.splits)
  have walk: "SubLayer_root h self = Some (Inr r) \<longleftrightarrow>
         (\<exists>p. parent (h self) = Some p \<and> (parent_link h)\<^sup>*\<^sup>* p r \<and> parent (h r) = None)"
    if "is_SubLayer (cls (h self))"
    using that
    by (auto simp: SubLayer_root_def split: option.splits
          dest: walk_parents_link intro: link_walk_parents)
  have orphan: "SubLayer_root h self = Some (Inl AttributeError)"
    if "is_SubLayer (cls (h self))" "parent (h self) = None"
    using that by (simp add: SubLayer_root_def)
  show ?thesis
    using bp first reads skips cost walk orphan by (intro conjI impI) blast+
qed

theorem stored_root_is_used_witness:
  "is_SubLayer (cls (sigmoid_dropout 1)) \<and> child (sigmoid_dropout 1) = None \<and>
   stored_root (sigmoid_dropout 1) = None \<and>
   Layer_bp plain_optimizers sigmoid_dropout 1 [[1 / 2]] [[3]] [[1]] no_state =
     (Inl AttributeError, no_state) \<and>
   stored_root (sigmoid_dropout_astray 1) = Some 5 \<and>
   cls (sigmoid_dropout_astray 5) = Activation Tanh \<and>
   SubLayer_root sigmoid_dropout_astray 1 = Some (Inr 0) \<and>
   Layer_bp plain_optimizers sigmoid_dropout_astray 1 [[1 / 2]] [[3]] [[1]] no_state =
     (Inr [[9 / 2]], no_state) \<and>
   child (sigmoid_dropout_cost 1) = Some 2 \<and> is_SubLayer (cls (sigmoid_dropout_cost 2)) \<and>
   Layer_bp plain_optimizers
     (\<lambda>a. (sigmoid_dropout_cost a)\<lparr> parent := None, stored_root := None \<rparr>) 1
     [[1 / 2]] [[3]] [[1]] no_state = (Inr [[2]], no_state) \<and>
   cls (sigmoid_cost 1) = CostLayer Cross_Entropy \<and> stored_root (sigmoid_cost 1) = None \<and>
   SubLayer_root sigmoid_cost 1 = Some (Inr 0) \<and> cls (sigmoid_cost 0) = Activation Sigmoid \<and>
   CostLayer_bp_first plain_optimizers sigmoid_cost 1 [[1]] [[1 / 4]] None no_state =
     (Inl AttributeError, None, no_state) \<and>
   cls (sigmoid_dropout_cost 2) = CostLayer Cross_Entropy \<and>
   stored_root (sigmoid_dropout_cost 2) = Some 0 \<and>
   cls (sigmoid_dropout_cost 0) = Activation Sigmoid \<and>
   CostLayer_bp_first plain_optimizers (\<lambda>a. (sigmoid_dropout_cost a)\<lparr> parent := None \<rparr>) 2
     [[1]] [[1 / 4]] None no_state = (Inr [[3 / 4]], None, no_state) \<and>
   parent (sigmoid_dropout_cost 2) = Some 1 \<and> parent (sigmoid_dropout_cost 1) = Some 0 \<and>
   parent (sigmoid_dropout_cost 0) = None \<and>
   SubLayer_root sigmoid_dropout_cost 2 = Some (Inr 0)"
proof -
  let ?opt = plain_optimizers
  have unrooted: "is_SubLayer (cls (sigmoid_dropout 1))" "child (sigmoid_dropout 1) = None"
    "stored_root (sigmoid_dropout 1) = None"
    by (simp_all add: chain_defs)
  from unrooted stored_root_is_used [where h = sigmoid_dropout and self = 1 and opt = ?opt
      and y = "[[1 / 2]]" and w = "[[3]]" and prev_delta = "[[1]]" and st = no_state,
      THEN conjunct2, THEN conjunct2, THEN conjunct1]
  have bp_unrooted: "Layer_bp ?opt sigmoid_dropout 1 [[1 / 2]] [[3]] [[1]] no_state =
      (Inl AttributeError, no_state)"
    by simp
  have astray: "is_SubLayer (cls (sigmoid_dropout_astray 1))"
    "child (sigmoid_dropout_astray 1) = None" "stored_root (sigmoid_dropout_astray 1) = Some 5"
    "cls (sigmoid_dropout_astray 5) = Activation Tanh"
    "parent (sigmoid_dropout_astray 1) = Some 0" "parent (sigmoid_dropout_astray 0) = None"
    by (simp_all add: chain_defs)
  have tanh: "derivative ?opt sigmoid_dropout_astray 5 [[1 / 2]] None no_state =
      (Inr [[3 / 4]], no_state)"
    "derivative ?opt sigmoid_dropout_astray 1 [[1 / 2]]
       (Some (ew (*) (np_dot [[1]] (np_T [[3]])) [[3 / 4]])) no_state = (Inr [[9 / 2]], no_state)"
    by (simp_all add: derivative_def chain_defs array_defs power2_eq_square)
  from astray tanh stored_root_is_used [where h = sigmoid_dropout_astray and self = 1
      and opt = ?opt and y = "[[1 / 2]]" and w = "[[3]]" and prev_delta = "[[1]]"
      and st = no_state, THEN conjunct2, THEN conjunct2, THEN conjunct1]
  have bp_astray: "Layer_bp ?opt sigmoid_dropout_astray 1 [[1 / 2]] [[3]] [[1]] no_state =
      (Inr [[9 / 2]], no_state)"
    by simp
  have "(parent_link sigmoid_dropout_astray)\<^sup>*\<^sup>* 0 0"
    by simp
  with astray stored_root_is_used [where h = sigmoid_dropout_astray and self = 1 and r = 0,
      THEN conjunct2, THEN conjunct2, THEN conjunct2, THEN conjunct2, THEN conjunct2]
  have root_astray: "SubLayer_root sigmoid_dropout_astray 1 = Some (Inr 0)"
    by blast
  have chain: "is_SubLayer (cls (sigmoid_dropout_cost 1))"
    "child (sigmoid_dropout_cost 1) = Some 2" "is_SubLayer (cls (sigmoid_dropout_cost 2))"
    "cls (sigmoid_dropout_cost 2) = CostLayer Cross_Entropy"
    "stored_root (sigmoid_dropout_cost 2) = Some 0"
    "cls (sigmoid_dropout_cost 0) = Activation Sigmoid"
    "parent (sigmoid_dropout_cost 2) = Some 1" "parent (sigmoid_dropout_cost 1) = Some 0"
    "parent (sigmoid_dropout_cost 0) = None"
    by (simp_all add: chain_defs)
  have dropout: "derivative ?opt sigmoid_dropout_cost 1 [[1 / 2]] (Some [[1]]) no_state =
      (Inr [[2]], no_state)"
    by (simp add: derivative_def chain_defs array_defs)
  from chain(1-3) dropout stored_root_is_used [where h = sigmoid_dropout_cost and self = 1
      and opt = ?opt and y = "[[1 / 2]]" and w = "[[3]]" and prev_delta = "[[1]]"
      and st = no_state and P = "\<lambda>a. None" and R = "\<lambda>a. None",
      THEN conjunct2, THEN conjunct2, THEN conjunct2, THEN conjunct1]
  have bp_inner: "Layer_bp ?opt
      (\<lambda>a. (sigmoid_dropout_cost a)\<lparr> parent := None, stored_root := None \<rparr>) 1
      [[1 / 2]] [[3]] [[1]] no_state = (Inr [[2]], no_state)"
    by simp
  have cost: "cls (sigmoid_cost 1) = CostLayer Cross_Entropy" "stored_root (sigmoid_cost 1) = None"
    "is_SubLayer (cls (sigmoid_cost 1))" "parent (sigmoid_cost 1) = Some 0"
    "parent (sigmoid_cost 0) = None" "cls (sigmoid_cost 0) = Activation Sigmoid"
    by (simp_all add: sigmoid_cost_def chain_defs)
  from cost stored_root_is_used [where h = sigmoid_cost and self = 1 and opt = ?opt
      and f = Cross_Entropy and y = "[[1]]" and y_pred = "[[1 / 4]]" and br = None
      and st = no_state,
      THEN conjunct2, THEN conjunct2, THEN conjunct2, THEN conjunct2, THEN conjunct1]
  have first_unrooted: "CostLayer_bp_first ?opt sigmoid_cost 1 [[1]] [[1 / 4]] None no_state =
      (Inl AttributeError, None, no_state)"
    by simp
  have "(parent_link sigmoid_cost)\<^sup>*\<^sup>* 0 0"
    by simp
  with cost stored_root_is_used [where h = sigmoid_cost and self = 1 and r = 0,
      THEN conjunct2, THEN conjunct2, THEN conjunct2, THEN conjunct2, THEN conjunct2]
  have root_cost: "SubLayer_root sigmoid_cost 1 = Some (Inr 0)"
    by blast
  note rooted = stored_root_is_used [where h = sigmoid_dropout_cost and self = 2
      and opt = ?opt and f = Cross_Entropy and y = "[[1]]" and y_pred = "[[1 / 4]]"
      and br = None and st = no_state and P = "\<lambda>a. None" and r = 0]
  from chain rooted [THEN conjunct2, THEN conjunct2, THEN conjunct2, THEN conjunct2, THEN conjunct1]
  have "CostLayer_bp_first ?opt sigmoid_dropout_cost 2 [[1]] [[1 / 4]] None no_state =
      (Inr [[3 / 4]], None, no_state)"
    by (simp add: array_defs)
  with rooted [THEN conjunct2, THEN conjunct1]
  have first_rooted: "CostLayer_bp_first ?opt
      (\<lambda>a. (sigmoid_dropout_cost a)\<lparr> parent := None \<rparr>) 2 [[1]] [[1 / 4]] None no_state =
      (Inr [[3 / 4]], None, no_state)"
    by simp
  have "parent_link sigmoid_dropout_cost 1 0"
    using chain by (simp add: parent_link_def)
  then have "(parent_link sigmoid_dropout_cost)\<^sup>*\<^sup>* 1 0"
    by (rule r_into_rtranclp)
  with chain rooted [THEN conjunct2, THEN conjunct2, THEN conjunct2, THEN conjunct2, THEN conjunct2]
  have root_chain: "SubLayer_root sigmoid_dropout_cost 2 = Some (Inr 0)"
    by blast
  from unrooted bp_unrooted astray(3,4) root_astray bp_astray chain(2,3) bp_inner
    cost(1,2) root_cost cost(6) first_unrooted chain(4-6) first_rooted chain(7-9) root_chain
  show ?thesis
    by (intro conjI)
qed




section \<open>Properties of the normalization sub-layer\<close>

text \<open>
  C6, as stated, fails on the first forward call: \<^verbatim>\<open>_activate\<close> begins by replacing
  running statistics that are still \<^verbatim>\<open>None\<close> with zero vectors, in inference mode too.
\<close>

theorem Normalize_activate_first_call_counterexample:
  "running_mean (Normalize_init 2 1 (9 / 10) () ()) = None \<and>
   running_var (Normalize_init 2 1 (9 / 10) () ()) = None \<and>
   running_mean (snd (Normalize_activate (Normalize_init 2 1 (9 / 10) () ()) [[3, 6]] True)) =
     Some [0, 0] \<and>
   running_var (snd (Normalize_activate (Normalize_init 2 1 (9 / 10) () ()) [[3, 6]] True)) =
     Some [0, 0]"
  by (simp add: Normalize_activate_def Normalize_init_def shape1_def np_zeros_def Let_def)

text \<open>
  C6, amended: in inference mode the output is \<open>gamma * (x - running_mean) /
  sqrt(running_var + eps) + beta\<close>, computed from the running estimates and not from the
  batch; when both running fields are set, the call changes nothing of the object; when
  one of them is unset, as on the first forward call a node receives, both are set to
  zero vectors of the input's feature count, the output is computed from those, and
  nothing else changes.
\<close>

theorem Normalize_activate_predict:
  assumes "Normalize_activate self x True = (out, self')"
  shows "(\<forall>rm rv. running_mean self = Some rm \<and> running_var self = Some rv \<longrightarrow>
            self' = self \<and>
            out = scale_shift (gamma self) (normalized x rm rv (eps self)) (beta self)) \<and>
         (running_mean self = None \<or> running_var self = None \<longrightarrow>
            self' = self\<lparr> running_mean := Some (np_zeros (shape1 x)),
                          running_var := Some (np_zeros (shape1 x)) \<rparr> \<and>
            out = scale_shift (gamma self)
                    (normalized x (np_zeros (shape1 x)) (np_zeros (shape1 x)) (eps self))
                    (beta self))"
  using assms by (auto simp: Normalize_activate_def Let_def)

theorem Normalize_activate_predict_witness:
  "Normalize_activate
     ((Normalize_init 2 1 (9 / 10) () ())\<lparr> running_mean := Some [1, 2], running_var := Some [3, 3] \<rparr>)
     [[3, 6]] True =
     ([[1, 2]],
      (Normalize_init 2 1 (9 / 10) () ())\<lparr> running_mean := Some [1, 2], running_var := Some [3, 3] \<rparr>) \<and>
   scale_shift [1, 1] (normalized [[3, 6]] [1, 2] [3, 3] 1) [0, 0] = [[1, 2]] \<and>
   Normalize_activate (Normalize_init 2 1 (9 / 10) () ()) [[3, 6]] True =
     ([[3, 6]],
      (Normalize_init 2 1 (9 / 10) () ())\<lparr> running_mean := Some [0, 0], running_var := Some [0, 0] \<rparr>) \<and>
   scale_shift [1, 1] (normalized [[3, 6]] [0, 0] [0, 0] 1) [0, 0] = [[3, 6]]"
proof -
  let ?s = "(Normalize_init 2 1 (9 / 10) () ())
              \<lparr> running_mean := Some [1, 2], running_var := Some [3, 3] \<rparr>"
  have a: "Normalize_activate ?s [[3, 6]] True = ([[1, 2]], ?s)"
    by (simp add: Normalize_activate_def Normalize_init_def scale_shift_def normalized_def
          ew_row_def Let_def numeral_2_eq_2)
  have b: "Normalize_activate (Normalize_init 2 1 (9 / 10) () ()) [[3, 6]] True =
     ([[3, 6]], (Normalize_init 2 1 (9 / 10) () ())
                  \<lparr> running_mean := Some [0, 0], running_var := Some [0, 0] \<rparr>)"
    by (simp add: Normalize_activate_def Normalize_init_def scale_shift_def normalized_def
          ew_row_def shape1_def np_zeros_def Let_def numeral_2_eq_2)
  show ?thesis
    using a b Normalize_activate_predict [OF a] Normalize_activate_predict [OF b]
    by (simp add: Normalize_init_def shape1_def np_zeros_def numeral_2_eq_2)
qed

section \<open>Properties of the loss functions\<close>

text \<open>
  C9. The claim: the gradient form of the negative log-likelihood returns the
  prediction with 1 subtracted at each row's true class, also across calls whose batch
  sizes differ. The row indices \<^verbatim>\<open>cls._batch_range\<close> are computed on the first call
  only and kept on the class. After a first call with one sample, a call with two
  samples pairs row 0 with both class indices: it returns \<open>[[-1/2, -1/2], [1/2, 1/2]]\<close>
  where the claim (and a fresh class) gives \<open>[[-1/2, 1/2], [1/2, -1/2]]\<close>. After a first
  call with two samples, a call with one sample raises \<^verbatim>\<open>IndexError\<close>.
\<close>

theorem log_likelihood_stale_batch_range:
  "CostLayer_log_likelihood None [[1, 0]] [[1 / 2, 1 / 2]] =
     (Inr [[- 1 / 2, 1 / 2]], Some [0]) \<and>
   CostLayer_log_likelihood (Some [0]) [[1, 0], [0, 1]] [[1 / 2, 1 / 2], [1 / 2, 1 / 2]] =
     (Inr [[- 1 / 2, - 1 / 2], [1 / 2, 1 / 2]], Some [0]) \<and>
   CostLayer_log_likelihood None [[1, 0], [0, 1]] [[1 / 2, 1 / 2], [1 / 2, 1 / 2]] =
     (Inr [[- 1 / 2, 1 / 2], [1 / 2, - 1 / 2]], Some [0, 1]) \<and>
   CostLayer_log_likelihood (Some [0, 1]) [[1, 0]] [[1 / 2, 1 / 2]] =
     (Inl IndexError, Some [0, 1])"
  by (simp add: CostLayer_log_likelihood_def array_defs)

theorem log_likelihood_stale_batch_range_witness:
  "CostLayer_log_likelihood (Some [0]) [[1, 0], [0, 1]] [[1 / 2, 1 / 2], [1 / 2, 1 / 2]] =
     (Inr [[- 1 / 2, - 1 / 2], [1 / 2, 1 / 2]], Some [0])"
  by (rule conjunct1 [OF conjunct2 [OF log_likelihood_stale_batch_range]])

text \<open>
  The part of C9 about the argument holds: the subtraction works on a copy, so the
  caller's array is as it was, whatever the batch range.
\<close>

lemma log_likelihood_at_keeps_argument:
  assumes "CostLayer_log_likelihood_at br h y y_pred = (r, br', h')" and "y_pred < next_free h"
  shows "arrays h' y_pred = arrays h y_pred"
  using assms
  by (auto simp: CostLayer_log_likelihood_at_def np_copy_def Let_def
           split: sum.splits prod.splits)

section \<open>Properties of max pooling\<close>

subsection \<open>Lists as arrays\<close>

lemma length_concat_uniform:
  "\<forall>xs\<in>set xss. length xs = n \<Longrightarrow> length (concat xss) = length xss * n"
  by (induction xss) simp_all

lemma concat_nth_uniform:
  "\<forall>xs\<in>set xss. length xs = n \<Longrightarrow> i < length xss \<Longrightarrow> j < n \<Longrightarrow>
   concat xss ! (i * n + j) = xss ! i ! j"
proof (induction xss arbitrary: i)
  case Nil
  then show ?case by simp
next
  case (Cons xs xss)
  show ?case
  proof (cases i)
    case 0
    with Cons.prems show ?thesis by (simp add: nth_append)
  next
    case (Suc i')
    with Cons.prems have "concat xss ! (i' * n + j) = xss ! i' ! j"
      by (intro Cons.IH) simp_all
    with Suc Cons.prems show ?thesis by (simp add: nth_append)
  qed
qed

lemma length_slice: "length (slice a b xs) = min b (length xs) - a"
  by (simp add: slice_def)

lemma nth_slice: "i < length (slice a b xs) \<Longrightarrow> slice a b xs ! i = xs ! (a + i)"
  by (auto simp: slice_def)

lemma slice_conv_nth: "slice a b xs = map ((!) xs) [a..<min b (length xs)]"
proof (rule nth_equalityI)
  show "length (slice a b xs) = length (map ((!) xs) [a..<min b (length xs)])"
    by (simp add: length_slice)
next
  fix i
  assume i: "i < length (slice a b xs)"
  then have "a + i < min b (length xs)"
    unfolding length_slice by linarith
  with i show "slice a b xs ! i = map ((!) xs) [a..<min b (length xs)] ! i"
    by (simp add: nth_slice length_slice)
qed

lemma length_set_slice:
  "a \<le> b \<Longrightarrow> length v = length (slice a b xs) \<Longrightarrow> length (set_slice a b v xs) = length xs"
  by (auto simp: set_slice_def length_slice)

lemma nth_set_slice:
  assumes "a \<le> b" and "length v = length (slice a b xs)" and "i < length xs"
  shows "set_slice a b v xs ! i = (if a \<le> i \<and> i < b then v ! (i - a) else xs ! i)"
proof -
  have len: "length v = min b (length xs) - a"
    using assms(2) by (simp add: length_slice)
  consider "i < a" | "a \<le> i" "i < b" | "b \<le> i"
    by linarith
  then show ?thesis
  proof cases
    case 1
    with assms show ?thesis by (simp add: set_slice_def nth_append)
  next
    case 2
    with assms len have "i - a < length v" "a \<le> length xs"
      by auto
    with 2 show ?thesis by (simp add: set_slice_def nth_append)
  next
    case 3
    with assms len have v: "length v = b - a"
      by auto
    with 3 assms have "\<not> i - a < length v" "a \<le> length xs" "i - a - length v = i - b"
      by auto
    moreover have "\<not> i < a" "\<not> (a \<le> i \<and> i < b)"
      using 3 assms by auto
    ultimately show ?thesis
      using assms(3) 3 by (simp add: set_slice_def nth_append)
  qed
qed

lemma np_max1_eq_Max: "xs \<noteq> [] \<Longrightarrow> np_max1 xs = Max (set xs)"
proof (cases xs)
  case (Cons v vs)
  then show ?thesis
    using Max.set_eq_fold [of v vs] by (simp add: np_max1_def)
qed simp

lemma np_max_eq_Max: "concat w \<noteq> [] \<Longrightarrow> np_max w = Inr (Max (set (concat w)))"
proof (cases "concat w")
  case (Cons v vs)
  then show ?thesis
    using Max.set_eq_fold [of v vs] by (simp add: np_max_def)
qed simp

lemma sequence_map_Inr: "sequence (map (\<lambda>x. Inr (f x)) xs) = Inr (map f xs)"
  by (induction xs) simp_all

lemma sequence_cong_Inr:
  "(\<And>x. x \<in> set xs \<Longrightarrow> f x = Inr (g x)) \<Longrightarrow> sequence (map f xs) = Inr (map g xs)"
  by (induction xs) simp_all

lemma sequence_Inr_D:
  "sequence rs = Inr vs \<Longrightarrow> rs = map Inr vs"
proof (induction rs arbitrary: vs)
  case Nil
  then show ?case by simp
next
  case (Cons r rs)
  from Cons.prems obtain v vs' where "r = Inr v" "sequence rs = Inr vs'" "vs = v # vs'"
    by (auto split: sum.splits)
  with Cons.IH [of vs'] show ?case by simp
qed

subsection \<open>Windows and tiles of a plane\<close>

lemma rect_nth: "rect h w plane \<Longrightarrow> r < h \<Longrightarrow> length (plane ! r) = w"
  by (simp add: rect_def list_all_length)

lemma window_conv:
  assumes "rect h w plane"
  shows "window plane r0 r1 c0 c1 =
           map (\<lambda>r. map (\<lambda>c. plane ! r ! c) [c0..<min c1 w]) [r0..<min r1 h]"
proof -
  have h: "length plane = h"
    using assms by (simp add: rect_def)
  have "map (slice c0 c1) (map ((!) plane) [r0..<min r1 h]) =
        map (\<lambda>r. map (\<lambda>c. plane ! r ! c) [c0..<min c1 w]) [r0..<min r1 h]"
    unfolding map_map
  proof (rule map_cong [OF refl])
    fix r
    assume "r \<in> set [r0..<min r1 h]"
    then have "length (plane ! r) = w"
      using rect_nth [OF assms, of r] by simp
    then show "(slice c0 c1 \<circ> (!) plane) r = map (\<lambda>c. plane ! r ! c) [c0..<min c1 w]"
      by (simp add: slice_conv_nth)
  qed
  then show ?thesis
    by (simp add: window_def slice_conv_nth h)
qed

lemma set_concat_window:
  assumes "rect h w plane"
  shows "set (concat (window plane r0 r1 c0 c1)) =
           (\<lambda>(r, c). plane ! r ! c) ` ({r0..<min r1 h} \<times> {c0..<min c1 w})"
  by (auto simp: window_conv [OF assms])

lemma tiles_of_conv:
  assumes "rect (nh * ph) (nw * pw) plane"
  shows "tiles_of nh ph nw pw plane =
           map (\<lambda>a. map (\<lambda>b. map (\<lambda>c. map (\<lambda>d. plane ! (a * ph + b) ! (c * pw + d))
             [0..<pw]) [0..<nw]) [0..<ph]) [0..<nh]"
proof -
  have flat: "concat plane ! (((a * ph + b) * nw + c) * pw + d) =
              plane ! (a * ph + b) ! (c * pw + d)"
    if "a < nh" "b < ph" "c < nw" "d < pw" for a b c d
  proof -
    have "a * ph + b < nh * ph"
    proof -
      have "a * ph + b < a * ph + ph" using that by simp
      also have "\<dots> = (a + 1) * ph" by simp
      also have "\<dots> \<le> nh * ph" using that by (intro mult_le_mono1) simp
      finally show ?thesis .
    qed
    moreover have "c * pw + d < nw * pw"
    proof -
      have "c * pw + d < c * pw + pw" using that by simp
      also have "\<dots> = (c + 1) * pw" by simp
      also have "\<dots> \<le> nw * pw" using that by (intro mult_le_mono1) simp
      finally show ?thesis .
    qed
    moreover have "\<forall>r\<in>set plane. length r = nw * pw" "length plane = nh * ph"
      using assms by (simp_all add: rect_def list_all_iff)
    ultimately have "concat plane ! ((a * ph + b) * (nw * pw) + (c * pw + d)) =
                     plane ! (a * ph + b) ! (c * pw + d)"
      by (intro concat_nth_uniform) simp_all
    moreover have "((a * ph + b) * nw + c) * pw + d = (a * ph + b) * (nw * pw) + (c * pw + d)"
      by (simp add: algebra_simps)
    ultimately show ?thesis
      by (simp only:)
  qed
  show ?thesis
    unfolding tiles_of_def Let_def
    by (intro map_cong refl) (simp add: flat)
qed

lemma Max_Max_image:
  fixes f :: "'a \<Rightarrow> 'b \<Rightarrow> 'c::linorder"
  assumes "finite A" "finite B" "A \<noteq> {}" "B \<noteq> {}"
  shows "Max ((\<lambda>d. Max ((\<lambda>b. f b d) ` B)) ` A) = Max ((\<lambda>(b, d). f b d) ` (B \<times> A))"
proof (rule Max_eqI)
  let ?M = "Max ((\<lambda>(b, d). f b d) ` (B \<times> A))"
  have fin: "finite ((\<lambda>(b, d). f b d) ` (B \<times> A))" and ne: "(\<lambda>(b, d). f b d) ` (B \<times> A) \<noteq> {}"
    using assms by auto
  show "finite ((\<lambda>d. Max ((\<lambda>b. f b d) ` B)) ` A)"
    using assms by simp
  show "y \<le> ?M" if "y \<in> (\<lambda>d. Max ((\<lambda>b. f b d) ` B)) ` A" for y
  proof -
    from that obtain d where d: "d \<in> A" "y = Max ((\<lambda>b. f b d) ` B)"
      by auto
    have "Max ((\<lambda>b. f b d) ` B) \<in> (\<lambda>b. f b d) ` B"
      using assms by (intro Max_in) auto
    then obtain b where "b \<in> B" "y = f b d"
      using d by auto
    with d have "y \<in> (\<lambda>(b, d). f b d) ` (B \<times> A)"
      by (intro image_eqI [where x = "(b, d)"]) auto
    then show ?thesis
      using fin by (rule Max_ge [rotated])
  qed
  show "?M \<in> (\<lambda>d. Max ((\<lambda>b. f b d) ` B)) ` A"
  proof -
    have "?M \<in> (\<lambda>(b, d). f b d) ` (B \<times> A)"
      using fin ne by (rule Max_in)
    then obtain b d where bd: "b \<in> B" "d \<in> A" "?M = f b d"
      by auto
    have "f b d \<le> Max ((\<lambda>b. f b d) ` B)"
      using assms bd by (intro Max_ge) auto
    moreover have "Max ((\<lambda>b. f b d) ` B) \<le> ?M"
    proof -
      have "Max ((\<lambda>b. f b d) ` B) \<in> (\<lambda>b. f b d) ` B"
        using assms by (intro Max_in) auto
      then obtain b' where "b' \<in> B" "Max ((\<lambda>b. f b d) ` B) = f b' d"
        by auto
      with bd have "Max ((\<lambda>b. f b d) ` B) \<in> (\<lambda>(b, d). f b d) ` (B \<times> A)"
        by (intro image_eqI [where x = "(b', d)"]) auto
      then show ?thesis
        using fin by (rule Max_ge [rotated])
    qed
    ultimately have "?M = Max ((\<lambda>b. f b d) ` B)"
      using bd by simp
    with bd show ?thesis by blast
  qed
qed

lemma tile_bounds:
  fixes a :: nat
  assumes "a < nh" "0 < p"
  shows "min (p + a * p) (nh * p) = a * p + p"
proof -
  have "a * p + p = (a + 1) * p" by simp
  also have "\<dots> \<le> nh * p" using assms by (intro mult_le_mono1) simp
  finally show ?thesis by (simp add: add.commute)
qed

lemma tile_index_set:
  fixes a p c q :: nat
  shows "(\<lambda>(r, c). (g r c :: real)) ` ({a * p..<a * p + p} \<times> {c * q..<c * q + q}) =
   (\<lambda>(b, d). g (a * p + b) (c * q + d)) ` ({0..<p} \<times> {0..<q})"
proof (intro set_eqI iffI)
  fix v
  assume "v \<in> (\<lambda>(r, c). g r c) ` ({a * p..<a * p + p} \<times> {c * q..<c * q + q})"
  then obtain r c' where rc: "a * p \<le> r" "r < a * p + p" "c * q \<le> c'" "c' < c * q + q"
    "v = g r c'"
    by auto
  then have "v = g (a * p + (r - a * p)) (c * q + (c' - c * q))" "r - a * p < p" "c' - c * q < q"
    by auto
  then show "v \<in> (\<lambda>(b, d). g (a * p + b) (c * q + d)) ` ({0..<p} \<times> {0..<q})"
    by (intro image_eqI [where x = "(r - a * p, c' - c * q)"]) auto
next
  fix v
  assume "v \<in> (\<lambda>(b, d). g (a * p + b) (c * q + d)) ` ({0..<p} \<times> {0..<q})"
  then obtain b d where "b < p" "d < q" "v = g (a * p + b) (c * q + d)"
    by auto
  then show "v \<in> (\<lambda>(r, c). g r c) ` ({a * p..<a * p + p} \<times> {c * q..<c * q + q})"
    by (intro image_eqI [where x = "(a * p + b, c * q + d)"]) auto
qed

lemma window_max_tile:
  assumes "rect (nh * ph) (nw * pw) plane" "0 < ph" "0 < pw" "a < nh" "c < nw"
  shows "np_max (window plane (a * ph) (ph + a * ph) (c * pw) (pw + c * pw)) =
         Inr (Max (tile_values plane ph pw a c))"
proof -
  have s: "set (concat (window plane (a * ph) (ph + a * ph) (c * pw) (pw + c * pw))) =
        tile_values plane ph pw a c"
    unfolding set_concat_window [OF assms(1)] tile_bounds [OF assms(4) assms(2)]
      tile_bounds [OF assms(5) assms(3)] tile_values_def
    by (rule tile_index_set)
  have "tile_values plane ph pw a c \<noteq> {}"
    using assms by (simp add: tile_values_def)
  with s have "concat (window plane (a * ph) (ph + a * ph) (c * pw) (pw + c * pw)) \<noteq> []"
    by (metis set_empty)
  then show ?thesis
    using s by (simp add: np_max_eq_Max)
qed

lemma nested_max_tile:
  assumes "0 < ph" "0 < pw"
  shows "np_max1 (map (\<lambda>d. np_max1 (map (\<lambda>b. plane ! (a * ph + b) ! (c * pw + d)) [0..<ph]))
            [0..<pw]) = Max (tile_values plane ph pw a c)"
proof -
  have "np_max1 (map (\<lambda>d. np_max1 (map (\<lambda>b. plane ! (a * ph + b) ! (c * pw + d)) [0..<ph]))
            [0..<pw]) =
        Max ((\<lambda>d. Max ((\<lambda>b. plane ! (a * ph + b) ! (c * pw + d)) ` {0..<ph})) ` {0..<pw})"
    using assms by (simp add: np_max1_eq_Max)
  also have "\<dots> = Max ((\<lambda>(b, d). plane ! (a * ph + b) ! (c * pw + d)) ` ({0..<ph} \<times> {0..<pw}))"
    using assms by (intro Max_Max_image) auto
  finally show ?thesis by (simp add: tile_values_def)
qed

lemma tiles_max_conv:
  assumes "rect (nh * ph) (nw * pw) plane" "0 < ph" "0 < pw"
  shows "tiles_max ph nw pw (tiles_of nh ph nw pw plane) =
         map (\<lambda>a. map (\<lambda>c. Max (tile_values plane ph pw a c)) [0..<nw]) [0..<nh]"
proof -
  let ?T = "\<lambda>a. map (\<lambda>b. map (\<lambda>c. map (\<lambda>d. plane ! (a * ph + b) ! (c * pw + d))
             [0..<pw]) [0..<nw]) [0..<ph]"
  have cell: "np_max1 (map (\<lambda>d. np_max1 (map (\<lambda>b. ?T a ! b ! c ! d) [0..<ph])) [0..<pw]) =
        Max (tile_values plane ph pw a c)" if "c < nw" for a c
  proof -
    have "map (\<lambda>d. np_max1 (map (\<lambda>b. ?T a ! b ! c ! d) [0..<ph])) [0..<pw] =
          map (\<lambda>d. np_max1 (map (\<lambda>b. plane ! (a * ph + b) ! (c * pw + d)) [0..<ph])) [0..<pw]"
      by (intro map_cong refl arg_cong [where f = np_max1]) (simp add: that)
    then show ?thesis
      by (simp only: nested_max_tile [OF assms(2,3)])
  qed
  have "tiles_max ph nw pw (map ?T [0..<nh]) =
        map (\<lambda>a. map (\<lambda>c. Max (tile_values plane ph pw a c)) [0..<nw]) [0..<nh]"
    unfolding tiles_max_def map_map comp_def
    by (rule map_cong [OF refl], rule map_cong [OF refl]) (simp add: cell)
  then show ?thesis
    by (simp only: tiles_of_conv [OF assms(1)])
qed

lemma plane_paths_agree:
  assumes "rect (nh * p) (nw * p) plane" "0 < p"
  shows "sequence (map (\<lambda>k. sequence (map (\<lambda>l.
           np_max (window plane (k * p) (p + k * p) (l * p) (p + l * p))) [0..<nw])) [0..<nh]) =
         Inr (tiles_max p nw p (tiles_of nh p nw p plane))"
proof -
  have "sequence (map (\<lambda>l. np_max (window plane (k * p) (p + k * p) (l * p) (p + l * p)))
          [0..<nw]) = Inr (map (\<lambda>c. Max (tile_values plane p p k c)) [0..<nw])"
    if "k < nh" for k
    using that assms by (intro sequence_cong_Inr) (simp add: window_max_tile)
  then have inner: "\<And>k. k \<in> set [0..<nh] \<Longrightarrow>
      sequence (map (\<lambda>l. np_max (window plane (k * p) (p + k * p) (l * p) (p + l * p)))
          [0..<nw]) = Inr (map (\<lambda>c. Max (tile_values plane p p k c)) [0..<nw])"
    by simp
  have "sequence (map (\<lambda>k. sequence (map (\<lambda>l.
           np_max (window plane (k * p) (p + k * p) (l * p) (p + l * p))) [0..<nw])) [0..<nh]) =
         Inr (map (\<lambda>a. map (\<lambda>c. Max (tile_values plane p p a c)) [0..<nw]) [0..<nh])"
    by (rule sequence_cong_Inr) (rule inner)
  then show ?thesis
    by (simp only: tiles_max_conv [OF assms(1) assms(2) assms(2)])
qed

subsection \<open>Writing a window\<close>

lemma rect_length: "rect h w plane \<Longrightarrow> length plane = h"
  by (simp add: rect_def)

lemma rectI: "length plane = h \<Longrightarrow> (\<And>r. r < h \<Longrightarrow> length (plane ! r) = w) \<Longrightarrow> rect h w plane"
  by (simp add: rect_def list_all_length)

lemma set_window_cell:
  assumes x: "rect h w x" and dx: "rect h w dx" and le: "r0 \<le> r1" "c0 \<le> c1"
  shows "rect h w (set_window dx r0 r1 c0 c1 (ew1 g (window x r0 r1 c0 c1)))"
    and "r < h \<Longrightarrow> c < w \<Longrightarrow>
         set_window dx r0 r1 c0 c1 (ew1 g (window x r0 r1 c0 c1)) ! r ! c =
           (if r0 \<le> r \<and> r < r1 \<and> c0 \<le> c \<and> c < c1 then g (x ! r ! c) else dx ! r ! c)"
proof -
  let ?blk = "ew1 g (window x r0 r1 c0 c1)"
  let ?rows = "map2 (\<lambda>row v. set_slice c0 c1 v row) (slice r0 r1 dx) ?blk"
  have hx: "length x = h" and hd: "length dx = h"
    using x dx by (simp_all add: rect_length)
  have len_blk: "length ?blk = min r1 h - r0"
    by (simp add: ew1_def window_def length_slice hx)
  have len_rows: "length ?rows = length (slice r0 r1 dx)"
    by (simp add: len_blk length_slice hd)
  have row: "?rows ! i = set_slice c0 c1 (map g (slice c0 c1 (x ! (r0 + i)))) (dx ! (r0 + i))"
    if "i < min r1 h - r0" for i
    using that by (simp add: len_blk length_slice hd hx ew1_def window_def nth_slice)
  have new_row: "set_window dx r0 r1 c0 c1 ?blk ! r =
        (if r0 \<le> r \<and> r < r1 then set_slice c0 c1 (map g (slice c0 c1 (x ! r))) (dx ! r)
         else dx ! r)" if "r < h" for r
  proof -
    have "set_window dx r0 r1 c0 c1 ?blk ! r = (if r0 \<le> r \<and> r < r1 then ?rows ! (r - r0) else dx ! r)"
      unfolding set_window_def using le(1) len_rows that hd
      by (intro nth_set_slice) simp_all
    moreover have "?rows ! (r - r0) =
          set_slice c0 c1 (map g (slice c0 c1 (x ! r))) (dx ! r)" if "r0 \<le> r" "r < r1"
      using row [of "r - r0"] that \<open>r < h\<close> by simp
    ultimately show ?thesis by simp
  qed
  have len_new: "length (set_window dx r0 r1 c0 c1 ?blk) = h"
    unfolding set_window_def using le(1) len_rows hd by (simp add: length_set_slice)
  have row_len: "length (set_slice c0 c1 (map g (slice c0 c1 (x ! r))) (dx ! r)) = w"
    if "r < h" for r
    using that le(2) rect_nth [OF x that] rect_nth [OF dx that]
    by (simp add: length_set_slice length_slice)
  show "rect h w (set_window dx r0 r1 c0 c1 ?blk)"
    using len_new new_row row_len rect_nth [OF dx] by (intro rectI) auto
  show "set_window dx r0 r1 c0 c1 ?blk ! r ! c =
           (if r0 \<le> r \<and> r < r1 \<and> c0 \<le> c \<and> c < c1 then g (x ! r ! c) else dx ! r ! c)"
    if "r < h" "c < w"
  proof (cases "r0 \<le> r \<and> r < r1")
    case False
    with new_row [OF that(1)] show ?thesis by auto
  next
    case True
    have lx: "length (x ! r) = w" and ld: "length (dx ! r) = w"
      using rect_nth [OF x that(1)] rect_nth [OF dx that(1)] by simp_all
    have "set_slice c0 c1 (map g (slice c0 c1 (x ! r))) (dx ! r) ! c =
          (if c0 \<le> c \<and> c < c1 then map g (slice c0 c1 (x ! r)) ! (c - c0) else dx ! r ! c)"
      using le(2) that(2) lx ld by (intro nth_set_slice) (simp_all add: length_slice)
    moreover have "map g (slice c0 c1 (x ! r)) ! (c - c0) = g (x ! r ! c)" if "c0 \<le> c" "c < c1"
      using that \<open>c < w\<close> lx by (simp add: length_slice nth_slice)
    ultimately show ?thesis
      using True new_row [OF that(1)] by simp
  qed
qed

subsection \<open>Loops that overwrite\<close>

text \<open>
  A loop whose iteration \<open>k\<close> writes \<open>val k p\<close> at every position \<open>p\<close> that it covers
  and leaves the others alone: in the end a position holds what the last iteration
  covering it wrote, or its initial value when none did.
\<close>

lemma for_loop_last_writer:
  assumes step: "\<And>k s s'. k \<in> set ks \<Longrightarrow> good s \<Longrightarrow> body k s = Inr s' \<Longrightarrow>
             good s' \<and> (\<forall>p. ok p \<longrightarrow> get s' p = (if cov k p then val k p else get s p))"
    and run: "for_loop ks body s = Inr s'" and good_s: "good s"
  shows "good s' \<and> (\<forall>p. ok p \<longrightarrow>
           get s' p = (if filter (\<lambda>k. cov k p) ks = [] then get s p
                       else val (last (filter (\<lambda>k. cov k p) ks)) p))"
  using step run good_s
proof (induction ks arbitrary: s)
  case Nil
  then show ?case by simp
next
  case (Cons k ks)
  from Cons.prems(2) obtain s1 where s1: "body k s = Inr s1" "for_loop ks body s1 = Inr s'"
    by (auto split: sum.splits)
  have first: "good s1" "\<And>p. ok p \<Longrightarrow> get s1 p = (if cov k p then val k p else get s p)"
    using Cons.prems(1) [of k s s1] s1(1) Cons.prems(3) by auto
  have step': "good t' \<and> (\<forall>p. ok p \<longrightarrow> get t' p = (if cov j p then val j p else get t p))"
    if "j \<in> set ks" "good t" "body j t = Inr t'" for j t t'
    using Cons.prems(1) [of j t t'] that by simp
  have rest: "good s' \<and> (\<forall>p. ok p \<longrightarrow>
           get s' p = (if filter (\<lambda>k. cov k p) ks = [] then get s1 p
                       else val (last (filter (\<lambda>k. cov k p) ks)) p))"
    by (rule Cons.IH [OF step' s1(2) first(1)])
  show ?case
  proof (intro conjI allI impI)
    show "good s'" using rest by simp
  next
    fix p
    assume p: "ok p"
    with rest have s': "get s' p = (if filter (\<lambda>k. cov k p) ks = [] then get s1 p
                       else val (last (filter (\<lambda>k. cov k p) ks)) p)"
      by simp
    show "get s' p = (if filter (\<lambda>k. cov k p) (k # ks) = [] then get s p
                       else val (last (filter (\<lambda>k. cov k p) (k # ks))) p)"
      using s' first(2) [OF p] by simp
  qed
qed

lemma for_loop_total:
  assumes "\<And>k s. k \<in> set ks \<Longrightarrow> good s \<Longrightarrow> \<exists>s'. body k s = Inr s' \<and> good s'"
    and "good s"
  shows "\<exists>s'. for_loop ks body s = Inr s' \<and> good s'"
  using assms
proof (induction ks arbitrary: s)
  case Nil
  then show ?case by simp
next
  case (Cons k ks)
  from Cons.prems(1) [of k s] Cons.prems(2) obtain s1 where s1: "body k s = Inr s1" "good s1"
    by auto
  have "\<exists>t'. body j t = Inr t' \<and> good t'" if "j \<in> set ks" "good t" for j t
    using Cons.prems(1) [of j t] that by simp
  from Cons.IH [OF this s1(2)] obtain s' where "for_loop ks body s1 = Inr s'" "good s'"
    by auto
  with s1 show ?case by simp
qed

subsection \<open>The sliding-window backward pass on one plane\<close>

lemma window_step_cell:
  assumes x: "rect h w x" and dx: "rect h w dx"
    and step: "window_step ph pw sd x delta k l dx = Inr dx'"
  shows "rect h w dx'"
    and "\<exists>m. np_max (window x (k * sd) (ph + k * sd) (l * sd) (pw + l * sd)) = Inr m \<and>
           l < length (delta ! k) \<and> k < length delta \<and>
           (\<forall>r c. r < h \<and> c < w \<longrightarrow> dx' ! r ! c =
              (if covers ph sd k r \<and> covers pw sd l c
               then (if x ! r ! c = m then delta ! k ! l else 0) else dx ! r ! c))"
proof -
  let ?w = "window x (k * sd) (ph + k * sd) (l * sd) (pw + l * sd)"
  from step obtain m where m: "np_max ?w = Inr m"
    by (auto simp: window_step_def Let_def split: sum.splits)
  from step m have d: "k < length delta" "l < length (delta ! k)"
    by (auto simp: window_step_def Let_def index2_def split: sum.splits if_splits)
  from step m d have dx': "dx' = set_window dx (k * sd) (ph + k * sd) (l * sd) (pw + l * sd)
      (ew1 (\<lambda>v. (if v = m then 1 else 0) * delta ! k ! l) ?w)"
    by (simp add: window_step_def Let_def index2_def)
  show "rect h w dx'"
    unfolding dx' by (rule set_window_cell(1) [OF x dx]) simp_all
  have "dx' ! r ! c =
          (if covers ph sd k r \<and> covers pw sd l c
           then (if x ! r ! c = m then delta ! k ! l else 0) else dx ! r ! c)"
    if "r < h" "c < w" for r c
    unfolding dx' using set_window_cell(2) [OF x dx _ _ that, of "k * sd" "ph + k * sd"
        "l * sd" "pw + l * sd" "\<lambda>v. (if v = m then 1 else 0) * delta ! k ! l"]
    by (simp add: covers_def)
  with m d show "\<exists>m. np_max ?w = Inr m \<and> l < length (delta ! k) \<and> k < length delta \<and>
           (\<forall>r c. r < h \<and> c < w \<longrightarrow> dx' ! r ! c =
              (if covers ph sd k r \<and> covers pw sd l c
               then (if x ! r ! c = m then delta ! k ! l else 0) else dx ! r ! c))"
    by blast
qed

lemma np_max_Inr: "np_max w = Inr m \<Longrightarrow> m = np_max1 (concat w)"
  by (cases "concat w") (simp_all add: np_max_def np_max1_def)

lemma inner_loop_cell:
  assumes x: "rect h w x" and dx: "rect h w dx"
    and run: "for_loop [0..<ow] (window_step ph pw sd x delta k) dx = Inr dx'"
  shows "rect h w dx' \<and>
         (\<forall>p. fst p < h \<and> snd p < w \<longrightarrow>
            dx' ! fst p ! snd p =
              (if filter (\<lambda>l. covers ph sd k (fst p) \<and> covers pw sd l (snd p)) [0..<ow] = []
               then dx ! fst p ! snd p
               else routed ph pw sd x delta k
                      (last (filter (\<lambda>l. covers ph sd k (fst p) \<and> covers pw sd l (snd p)) [0..<ow]))
                      (fst p) (snd p)))"
proof (rule for_loop_last_writer [where good = "rect h w" and body = "window_step ph pw sd x delta k"
      and get = "\<lambda>s p. s ! fst p ! snd p" and ok = "\<lambda>p. fst p < h \<and> snd p < w"
      and cov = "\<lambda>l p. covers ph sd k (fst p) \<and> covers pw sd l (snd p)"
      and val = "\<lambda>l p. routed ph pw sd x delta k l (fst p) (snd p)", OF _ run dx])
  fix l s s'
  assume "rect h w s" and s': "window_step ph pw sd x delta k l s = Inr s'"
  from window_step_cell [OF x this]
  show "rect h w s' \<and>
       (\<forall>p. fst p < h \<and> snd p < w \<longrightarrow>
            s' ! fst p ! snd p =
            (if covers ph sd k (fst p) \<and> covers pw sd l (snd p)
             then routed ph pw sd x delta k l (fst p) (snd p) else s ! fst p ! snd p))"
    by (auto simp: routed_def dest: np_max_Inr)
qed

lemma filter_conj_const: "filter (\<lambda>l. A \<and> B l) ls = (if A then filter B ls else [])"
  by (induction ls) simp_all

lemma filter_product:
  "filter (\<lambda>(k, l). A k \<and> B l) (List.product xs ys) = List.product (filter A xs) (filter B ys)"
proof (induction xs)
  case Nil
  then show ?case by simp
next
  case (Cons x xs)
  have "filter (\<lambda>(k, l). A k \<and> B l) (map (Pair x) ys) =
        (if A x then map (Pair x) (filter B ys) else [])"
    by (induction ys) simp_all
  with Cons show ?case by simp
qed

lemma product_eq_Nil: "List.product xs ys = [] \<longleftrightarrow> xs = [] \<or> ys = []"
  by (induction xs) auto

lemma last_product:
  "xs \<noteq> [] \<Longrightarrow> ys \<noteq> [] \<Longrightarrow> last (List.product xs ys) = (last xs, last ys)"
proof (induction xs)
  case Nil
  then show ?case by simp
next
  case (Cons x xs)
  show ?case
  proof (cases "xs = []")
    case True
    with Cons.prems show ?thesis by (simp add: last_map)
  next
    case False
    with Cons have "last (List.product xs ys) = (last xs, last ys)"
      by simp
    moreover have "List.product xs ys \<noteq> []"
      using False Cons.prems by (simp add: product_eq_Nil)
    ultimately show ?thesis
      using False by simp
  qed
qed

lemma plane_derivative_original:
  assumes x: "rect h w x"
    and run: "for_loop [0..<oh] (\<lambda>k. for_loop [0..<ow] (window_step ph pw sd x delta k))
                (ew1 (\<lambda>v. 0) x) = Inr dx"
  shows "rect h w dx"
    and "r < h \<Longrightarrow> c < w \<Longrightarrow> dx ! r ! c =
           (case covering ph pw sd oh ow r c of [] \<Rightarrow> 0
            | ws \<Rightarrow> routed ph pw sd x delta (fst (last ws)) (snd (last ws)) r c)"
proof -
  let ?ls = "\<lambda>p. filter (\<lambda>l. covers pw sd l (snd p)) [0..<ow]"
  let ?ks = "\<lambda>p. filter (\<lambda>k. covers ph sd k (fst p)) [0..<oh]"
  have zero: "rect h w (ew1 (\<lambda>v. 0) x)"
    using x by (simp add: rect_def ew1_def list_all_iff)
  have all: "rect h w dx \<and> (\<forall>p. fst p < h \<and> snd p < w \<longrightarrow>
          dx ! fst p ! snd p =
            (if filter (\<lambda>k. covers ph sd k (fst p) \<and> ?ls p \<noteq> []) [0..<oh] = []
             then ew1 (\<lambda>v. 0) x ! fst p ! snd p
             else routed ph pw sd x delta
                    (last (filter (\<lambda>k. covers ph sd k (fst p) \<and> ?ls p \<noteq> []) [0..<oh]))
                    (last (?ls p)) (fst p) (snd p)))"
  proof (rule for_loop_last_writer [where good = "rect h w"
        and get = "\<lambda>s p. s ! fst p ! snd p" and ok = "\<lambda>p. fst p < h \<and> snd p < w"
        and cov = "\<lambda>k p. covers ph sd k (fst p) \<and> ?ls p \<noteq> []"
        and val = "\<lambda>k p. routed ph pw sd x delta k (last (?ls p)) (fst p) (snd p)",
        OF _ run zero])
    fix k s s'
    assume s: "rect h w s" and s': "for_loop [0..<ow] (window_step ph pw sd x delta k) s = Inr s'"
    from inner_loop_cell [OF x s s']
    show "rect h w s' \<and>
         (\<forall>p. fst p < h \<and> snd p < w \<longrightarrow>
              s' ! fst p ! snd p =
              (if covers ph sd k (fst p) \<and> ?ls p \<noteq> []
               then routed ph pw sd x delta k (last (?ls p)) (fst p) (snd p)
               else s ! fst p ! snd p))"
      by (simp add: filter_conj_const)
  qed
  from all show "rect h w dx" ..
  assume rc: "r < h" "c < w"
  have z: "ew1 (\<lambda>v. 0) x ! r ! c = 0"
    using rc x rect_nth [OF x rc(1)] by (simp add: ew1_def rect_def)
  from all rc have dx: "dx ! r ! c =
            (if filter (\<lambda>k. covers ph sd k r \<and> ?ls (r, c) \<noteq> []) [0..<oh] = [] then 0
             else routed ph pw sd x delta
                    (last (filter (\<lambda>k. covers ph sd k r \<and> ?ls (r, c) \<noteq> []) [0..<oh]))
                    (last (?ls (r, c))) r c)"
    using z by auto
  have cov: "covering ph pw sd oh ow r c = List.product (?ks (r, c)) (?ls (r, c))"
    by (simp add: covering_def filter_product)
  show "dx ! r ! c =
           (case covering ph pw sd oh ow r c of [] \<Rightarrow> 0
            | ws \<Rightarrow> routed ph pw sd x delta (fst (last ws)) (snd (last ws)) r c)"
  proof (cases "?ks (r, c) = [] \<or> ?ls (r, c) = []")
    case True
    then have "covering ph pw sd oh ow r c = []"
      by (simp add: cov product_eq_Nil)
    moreover have "filter (\<lambda>k. covers ph sd k r \<and> ?ls (r, c) \<noteq> []) [0..<oh] = []"
      using True by (auto simp: filter_empty_conv)
    ultimately show ?thesis using dx by simp
  next
    case False
    then have ne: "covering ph pw sd oh ow r c \<noteq> []"
      and l: "last (covering ph pw sd oh ow r c) = (last (?ks (r, c)), last (?ls (r, c)))"
      by (simp_all add: cov product_eq_Nil last_product)
    have "filter (\<lambda>k. covers ph sd k r \<and> ?ls (r, c) \<noteq> []) [0..<oh] = ?ks (r, c)"
      using False by simp
    with dx False have "dx ! r ! c =
        routed ph pw sd x delta (last (?ks (r, c))) (last (?ls (r, c))) r c"
      by simp
    with ne l show ?thesis
      by (cases "covering ph pw sd oh ow r c") simp_all
  qed
qed

lemma sequence_upt:
  assumes "sequence (map f [0..<n]) = Inr ys"
  shows "length ys = n" and "i < n \<Longrightarrow> f i = Inr (ys ! i)"
proof -
  from sequence_Inr_D [OF assms] have m: "map f [0..<n] = map Inr ys" .
  then show len: "length ys = n"
    by (metis length_map length_upt minus_nat.diff_0)
  show "f i = Inr (ys ! i)" if "i < n"
  proof -
    have "map f [0..<n] ! i = map Inr ys ! i"
      using m by simp
    with that len show ?thesis by simp
  qed
qed

subsection \<open>The reshape backward pass on one plane\<close>

lemma mult_add_less:
  fixes a b n p :: nat
  assumes "a < n" "b < p"
  shows "a * p + b < n * p"
proof -
  have "a * p + b < a * p + p" using assms by simp
  also have "\<dots> = (a + 1) * p" by simp
  also have "\<dots> \<le> n * p" using assms by (intro mult_le_mono1) simp
  finally show ?thesis .
qed

lemma concat3_tabulate:
  assumes "a < nh" "b < ph" "c < nw" "d < pw"
  shows "concat (concat (concat
           (map (\<lambda>a. map (\<lambda>b. map (\<lambda>c. map (\<lambda>d. F a b c d) [0..<pw]) [0..<nw]) [0..<ph])
              [0..<nh]))) ! ((a * ph + b) * (nw * pw) + (c * pw + d)) = F a b c d"
proof -
  let ?T = "map (\<lambda>a. map (\<lambda>b. map (\<lambda>c. map (\<lambda>d. F a b c d) [0..<pw]) [0..<nw]) [0..<ph])
              [0..<nh]"
  have u1: "\<forall>xs\<in>set ?T. length xs = ph"
    by auto
  have l1: "length (concat ?T) = nh * ph"
    using length_concat_uniform [OF u1] by simp
  have n1: "concat ?T ! (a * ph + b) = map (\<lambda>c. map (\<lambda>d. F a b c d) [0..<pw]) [0..<nw]"
    using concat_nth_uniform [OF u1, of a b] assms by simp
  have u2: "\<forall>xs\<in>set (concat ?T). length xs = nw"
    by auto
  have l2: "length (concat (concat ?T)) = nh * ph * nw"
    using length_concat_uniform [OF u2] l1 by simp
  have ab: "a * ph + b < nh * ph"
    using assms by (intro mult_add_less)
  have n2: "concat (concat ?T) ! ((a * ph + b) * nw + c) = map (\<lambda>d. F a b c d) [0..<pw]"
    using concat_nth_uniform [OF u2, of "a * ph + b" c] assms l1 ab n1 by simp
  have u3: "\<forall>xs\<in>set (concat (concat ?T)). length xs = pw"
    by auto
  have abc: "(a * ph + b) * nw + c < nh * ph * nw"
    using ab assms by (intro mult_add_less)
  have "concat (concat (concat ?T)) ! (((a * ph + b) * nw + c) * pw + d) = F a b c d"
    using concat_nth_uniform [OF u3, of "(a * ph + b) * nw + c" d] assms l2 abc n2 by simp
  moreover have "((a * ph + b) * nw + c) * pw + d = (a * ph + b) * (nw * pw) + (c * pw + d)"
    by (simp add: algebra_simps)
  ultimately show ?thesis by (simp only:)
qed

lemma tile_count_conv:
  assumes "rect (nh * ph) (nw * pw) plane" "a < nh" "c < nw"
  shows "tile_count ph pw (tiles_of nh ph nw pw plane ! a) c v =
         length (filter (\<lambda>(b, d). plane ! (a * ph + b) ! (c * pw + d) = v)
                   (List.product [0..<ph] [0..<pw]))"
  unfolding tile_count_def tiles_of_conv [OF assms(1)]
  using assms(2,3)
  by (intro arg_cong [where f = length] filter_cong refl) auto

lemma plane_derivative_reshape:
  assumes plane: "rect (nh * ph) (nw * pw) plane"
    and idx: "a < nh" "b < ph" "c < nw" "d < pw"
  shows "plane_of (nh * ph) (nw * pw)
           (tiles_derivative (nh, ph, nw, pw) (tiles_of nh ph nw pw plane) y delta)
           ! (a * ph + b) ! (c * pw + d) =
         (if plane ! (a * ph + b) ! (c * pw + d) = y ! a ! c then delta ! a ! c else 0)
           / real (length (filter (\<lambda>(b, d). plane ! (a * ph + b) ! (c * pw + d) = y ! a ! c)
                             (List.product [0..<ph] [0..<pw])))"
proof -
  let ?t = "tiles_of nh ph nw pw plane"
  let ?F = "\<lambda>a b c d. (if ?t ! a ! b ! c ! d = y ! a ! c then delta ! a ! c else 0)
                          / real (tile_count ph pw (?t ! a) c (y ! a ! c))"
  have r: "a * ph + b < nh * ph" and col: "c * pw + d < nw * pw"
    using idx by (simp_all add: mult_add_less)
  have "plane_of (nh * ph) (nw * pw) (tiles_derivative (nh, ph, nw, pw) ?t y delta)
          ! (a * ph + b) ! (c * pw + d) =
        concat (concat (concat
           (map (\<lambda>a. map (\<lambda>b. map (\<lambda>c. map (\<lambda>d. ?F a b c d) [0..<pw]) [0..<nw]) [0..<ph])
              [0..<nh]))) ! ((a * ph + b) * (nw * pw) + (c * pw + d))"
    using r col by (simp add: plane_of_def tiles_derivative_def Let_def)
  also have "\<dots> = ?F a b c d"
    using idx by (rule concat3_tabulate)
  also have "?t ! a ! b ! c ! d = plane ! (a * ph + b) ! (c * pw + d)"
    using idx by (simp add: tiles_of_conv [OF plane])
  finally show ?thesis
    by (simp only: tile_count_conv [OF plane idx(1) idx(3)])
qed

subsection \<open>Shapes\<close>

lemma has_shape4D:
  assumes "has_shape4 (n, ch, h, w) x"
  shows "shape4 x = (n, ch, h, w)" and "length x = n"
    and "i < n \<Longrightarrow> length (x ! i) = ch"
    and "i < n \<Longrightarrow> j < ch \<Longrightarrow> rect h w (x ! i ! j)"
proof -
  show s: "shape4 x = (n, ch, h, w)"
    using assms by (simp add: has_shape4_def)
  then show n: "length x = n"
    by (simp add: shape4_def)
  show "length (x ! i) = ch" if "i < n"
    using assms that n by (simp add: has_shape4_def list_all_length)
  show "rect h w (x ! i ! j)" if "i < n" "j < ch"
    using assms that n by (simp add: has_shape4_def list_all_length)
qed

lemma rect_plane_of: "rect h w (plane_of h w t)"
  by (simp add: rect_def plane_of_def Let_def list_all_iff)

subsection \<open>Tiles as lists of positions\<close>

lemma concat_tabulate_product:
  "concat (map (\<lambda>r. map (\<lambda>c. f r c) cs) rs) = map (\<lambda>(r, c). f r c) (List.product rs cs)"
  by (induction rs) simp_all

lemma product_map:
  "List.product (map f xs) (map g ys) = map (\<lambda>(x, y). (f x, g y)) (List.product xs ys)"
  by (induction xs) simp_all

lemma upt_shift: "[a..<a + p] = map (\<lambda>b. a + b) [0..<p]"
  by (rule nth_equalityI) simp_all

lemma window_tile_list:
  assumes "rect (nh * ph) (nw * pw) plane" "a < nh" "c < nw"
  shows "concat (window plane (a * ph) (ph + a * ph) (c * pw) (pw + c * pw)) =
         map (\<lambda>(b, d). plane ! (a * ph + b) ! (c * pw + d)) (List.product [0..<ph] [0..<pw])"
proof -
  have r: "min (ph + a * ph) (nh * ph) = a * ph + ph"
  proof -
    have "a * ph + ph = (a + 1) * ph" by simp
    also have "\<dots> \<le> nh * ph" using assms by (intro mult_le_mono1) simp
    finally show ?thesis by (simp add: add.commute)
  qed
  have c: "min (pw + c * pw) (nw * pw) = c * pw + pw"
  proof -
    have "c * pw + pw = (c + 1) * pw" by simp
    also have "\<dots> \<le> nw * pw" using assms by (intro mult_le_mono1) simp
    finally show ?thesis by (simp add: add.commute)
  qed
  show ?thesis
    unfolding window_conv [OF assms(1)] r c concat_tabulate_product
    unfolding upt_shift [of "a * ph" ph] upt_shift [of "c * pw" pw] product_map
    by (simp add: case_prod_unfold comp_def)
qed

lemma sum_list_ties:
  "sum_list (map (\<lambda>q. (if P q then v else 0) / k) qs) = real (length (filter P qs)) * v / (k::real)"
  by (induction qs) (simp_all add: add_divide_distrib algebra_simps)

lemma filter_upt_single:
  assumes "k < n" and "\<And>j. j < n \<Longrightarrow> P j \<longleftrightarrow> j = k"
  shows "filter P [0..<n] = [k]"
proof -
  have "[0..<n] = [0..<k] @ k # [Suc k..<n]"
    using assms(1) by (metis le_add1 less_imp_add_positive upt_add_eq_append upt_conv_Cons plus_nat.add_0)
  moreover have "filter P [0..<k] = []" "filter P [Suc k..<n] = []"
    using assms by (auto simp: filter_empty_conv)
  moreover have "P k"
    using assms by simp
  ultimately show ?thesis by simp
qed

lemma covers_unique:
  assumes "ext \<le> sd" "covers ext sd k r" "covers ext sd j r"
  shows "j = k"
proof -
  have "j * sd < (k + 1) * sd" "k * sd < (j + 1) * sd"
    using assms by (auto simp: covers_def)
  then have "j < k + 1" "k < j + 1"
    by (simp_all only: mult_less_cancel2)
  then show ?thesis by simp
qed

lemma covering_single:
  assumes "ph \<le> sd" "pw \<le> sd" "k < oh" "l < ow" "covers ph sd k r" "covers pw sd l c"
  shows "covering ph pw sd oh ow r c = [(k, l)]"
proof -
  have "filter (\<lambda>k. covers ph sd k r) [0..<oh] = [k]"
  proof (rule filter_upt_single [OF assms(3)])
    show "covers ph sd j r \<longleftrightarrow> j = k" for j
      using covers_unique [OF assms(1) assms(5)] assms(5) by blast
  qed
  moreover have "filter (\<lambda>l. covers pw sd l c) [0..<ow] = [l]"
  proof (rule filter_upt_single [OF assms(4)])
    show "covers pw sd j c \<longleftrightarrow> j = l" for j
      using covers_unique [OF assms(2) assms(6)] assms(6) by blast
  qed
  ultimately show ?thesis
    by (simp add: covering_def filter_product)
qed

lemma window_max_covering:
  assumes x: "rect h w x" and rc: "r < h" "c < w"
    and cov: "covers ph sd k r" "covers pw sd l c"
  shows "\<exists>m. np_max (window x (k * sd) (ph + k * sd) (l * sd) (pw + l * sd)) = Inr m"
proof -
  have "x ! r ! c \<in> set (concat (window x (k * sd) (ph + k * sd) (l * sd) (pw + l * sd)))"
    unfolding set_concat_window [OF x]
    using rc cov by (intro image_eqI [where x = "(r, c)"]) (auto simp: covers_def)
  then have "concat (window x (k * sd) (ph + k * sd) (l * sd) (pw + l * sd)) \<noteq> []"
    by (metis empty_iff empty_set)
  then show ?thesis
    by (simp add: np_max_eq_Max)
qed

subsection \<open>The two paths on whole arrays\<close>

lemma sequence_total:
  assumes "\<And>i. i < n \<Longrightarrow> \<exists>y. f i = Inr y"
  shows "\<exists>ys. sequence (map f [0..<n]) = Inr ys"
proof -
  have "sequence (map f [0..<n]) = Inr (map (\<lambda>i. projr (f i)) [0..<n])"
  proof (rule sequence_cong_Inr)
    fix i
    assume "i \<in> set [0..<n]"
    then obtain y where "f i = Inr y"
      using assms [of i] by auto
    then show "f i = Inr (projr (f i))" by simp
  qed
  then show ?thesis ..
qed

lemma derivative_original_plane:
  assumes x: "has_shape4 (n, ch, h, w) x"
    and run: "MaxPool_derivative_original ph pw sd oh ow x delta = Inr dx"
    and ij: "i < n" "j < ch"
  shows "for_loop [0..<oh] (\<lambda>k. for_loop [0..<ow]
           (window_step ph pw sd (x ! i ! j) (delta ! i ! j) k)) (ew1 (\<lambda>v. 0) (x ! i ! j)) =
         Inr (dx ! i ! j)"
proof -
  let ?plane = "\<lambda>i j. for_loop [0..<oh] (\<lambda>k. for_loop [0..<ow]
           (window_step ph pw sd (x ! i ! j) (delta ! i ! j) k)) (ew1 (\<lambda>v. 0) (x ! i ! j))"
  from run have "sequence (map (\<lambda>i. sequence (map (?plane i) [0..<ch])) [0..<n]) = Inr dx"
    by (simp add: MaxPool_derivative_original_def has_shape4D(1) [OF x])
  from sequence_upt(2) [OF this ij(1)]
  have "sequence (map (?plane i) [0..<ch]) = Inr (dx ! i)" .
  from sequence_upt(2) [OF this ij(2)] show ?thesis .
qed

lemma derivative_original_cell:
  assumes x: "has_shape4 (n, ch, h, w) x"
    and run: "MaxPool_derivative_original ph pw sd oh ow x delta = Inr dx"
    and ij: "i < n" "j < ch" and rc: "r < h" "c < w"
  shows "dx ! i ! j ! r ! c =
           (case covering ph pw sd oh ow r c of [] \<Rightarrow> 0
            | ws \<Rightarrow> routed ph pw sd (x ! i ! j) (delta ! i ! j) (fst (last ws)) (snd (last ws)) r c)"
  by (rule plane_derivative_original(2)
        [OF has_shape4D(4) [OF x ij] derivative_original_plane [OF x run ij] rc])

lemma derivative_reshape_cell:
  assumes x: "has_shape4 (n, ch, nh * p, nw * p) x" and p: "0 < p"
    and ij: "i < n" "j < ch" and idx: "a < nh" "b < p" "c < nw" "d < p"
  shows "MaxPool_derivative_reshape (fst (MaxPool_activate_reshape p p x)) x y delta
           ! i ! j ! (a * p + b) ! (c * p + d) =
         (if x ! i ! j ! (a * p + b) ! (c * p + d) = y ! i ! j ! a ! c
          then delta ! i ! j ! a ! c else 0)
           / real (length (filter (\<lambda>v. v = y ! i ! j ! a ! c)
                (concat (window (x ! i ! j) (a * p) (p + a * p) (c * p) (p + c * p)))))"
proof -
  have sh: "shape4 x = (n, ch, nh * p, nw * p)" and n: "length x = n"
    and c: "length (x ! i) = ch" and plane: "rect (nh * p) (nw * p) (x ! i ! j)"
    using has_shape4D [OF x] ij by simp_all
  have "MaxPool_derivative_reshape (fst (MaxPool_activate_reshape p p x)) x y delta ! i ! j =
        plane_of (nh * p) (nw * p)
          (tiles_derivative (nh, p, nw, p) (tiles_of nh p nw p (x ! i ! j))
             (y ! i ! j) (delta ! i ! j))"
    using ij n c p by (simp add: MaxPool_derivative_reshape_def MaxPool_activate_reshape_def sh Let_def)
  then show ?thesis
    using plane_derivative_reshape [OF plane idx, of "y ! i ! j" "delta ! i ! j"]
    by (simp add: window_tile_list [OF plane idx(1) idx(3)] filter_map comp_def case_prod_unfold)
qed

lemma activate_paths_agree:
  assumes x: "has_shape4 (n, ch, nh * p, nw * p) x" and p: "0 < p"
  shows "MaxPool_activate_original p p p nh nw x = Inr (snd (MaxPool_activate_reshape p p x))"
proof -
  have sh: "shape4 x = (n, ch, nh * p, nw * p)" and n: "length x = n"
    using has_shape4D [OF x] by simp_all
  let ?f = "\<lambda>plane. tiles_max p nw p (tiles_of nh p nw p plane)"
  have plane: "sequence (map (\<lambda>k. sequence (map (\<lambda>l.
          np_max (window (x ! i ! j) (k * p) (p + k * p) (l * p) (p + l * p)))
          [0..<nw])) [0..<nh]) = Inr (?f (x ! i ! j))" if "i < n" "j < ch" for i j
    using plane_paths_agree [OF has_shape4D(4) [OF x that] p] .
  have sample: "sequence (map (\<lambda>j. sequence (map (\<lambda>k. sequence (map (\<lambda>l.
          np_max (window (x ! i ! j) (k * p) (p + k * p) (l * p) (p + l * p)))
          [0..<nw])) [0..<nh])) [0..<ch]) = Inr (map ?f (x ! i))" if "i < n" for i
  proof -
    have "sequence (map (\<lambda>j. sequence (map (\<lambda>k. sequence (map (\<lambda>l.
          np_max (window (x ! i ! j) (k * p) (p + k * p) (l * p) (p + l * p)))
          [0..<nw])) [0..<nh])) [0..<ch]) = Inr (map (\<lambda>j. ?f (x ! i ! j)) [0..<ch])"
      by (rule sequence_cong_Inr) (simp add: plane [OF that])
    moreover have "map (\<lambda>j. ?f (x ! i ! j)) [0..<ch] = map ?f (x ! i)"
      using has_shape4D(3) [OF x that] by (intro nth_equalityI) simp_all
    ultimately show ?thesis by simp
  qed
  have "MaxPool_activate_original p p p nh nw x = Inr (map (\<lambda>i. map ?f (x ! i)) [0..<n])"
    unfolding MaxPool_activate_original_def sh prod.case
    by (rule sequence_cong_Inr) (simp add: sample)
  moreover have "map (\<lambda>i. map ?f (x ! i)) [0..<n] = map (map ?f) x"
    using n by (intro nth_equalityI) simp_all
  ultimately show ?thesis
    using p by (simp add: MaxPool_activate_reshape_def sh Let_def)
qed

lemma activate_reshape_cell:
  assumes x: "has_shape4 (n, ch, nh * p, nw * p) x" and p: "0 < p"
    and ij: "i < n" "j < ch" and idx: "a < nh" "c < nw"
  shows "snd (MaxPool_activate_reshape p p x) ! i ! j ! a ! c =
         np_max1 (concat (window (x ! i ! j) (a * p) (p + a * p) (c * p) (p + c * p)))"
proof -
  have sh: "shape4 x = (n, ch, nh * p, nw * p)" and n: "length x = n"
    and c: "length (x ! i) = ch" and plane: "rect (nh * p) (nw * p) (x ! i ! j)"
    using has_shape4D [OF x] ij by simp_all
  have "snd (MaxPool_activate_reshape p p x) ! i ! j ! a ! c =
        Max (tile_values (x ! i ! j) p p a c)"
    using ij n c p idx
    by (simp add: MaxPool_activate_reshape_def sh Let_def tiles_max_conv [OF plane p p])
  moreover have "np_max (window (x ! i ! j) (a * p) (p + a * p) (c * p) (p + c * p)) =
        Inr (Max (tile_values (x ! i ! j) p p a c))"
    using plane p idx by (intro window_max_tile)
  ultimately show ?thesis
    by (simp add: np_max_Inr)
qed

subsection \<open>The pooling object\<close>

lemma MaxPool_init_fields:
  assumes "MaxPool_init (ch, h, w) (ph, pw) sd padding = Inr self"
  shows "sd \<noteq> 0" and "pool_stride self = sd" and "pool_shape self = (ph, pw)"
    and "out_h (pool_dims self) = int_truediv (int h - int ph) (int sd) + 1"
    and "out_w (pool_dims self) = int_truediv (int w - int pw) (int sd) + 1"
  using assms
  by (auto simp: MaxPool_init_def ConvPoolLayer_feed_shape_def Let_def split: if_splits)

lemma tile_out_size:
  assumes "0 < p" "h mod p = 0"
  shows "nat (int_truediv (int h - int p) (int p) + 1) = h div p"
proof (cases "h = 0")
  case True
  with assms show ?thesis by (simp add: int_truediv_def)
next
  case False
  with assms have "p \<le> h"
    by (auto intro: dvd_imp_le)
  then have "int_truediv (int h - int p) (int p) = (int h - int p) div int p"
    using assms by (intro int_truediv_nonneg) simp_all
  also have "\<dots> = int ((h - p) div p)"
    using \<open>p \<le> h\<close> by (simp add: of_nat_diff zdiv_int)
  finally have "int_truediv (int h - int p) (int p) = int ((h - p) div p)" .
  moreover have "h div p = Suc ((h - p) div p)"
    using assms \<open>p \<le> h\<close> by (simp add: le_div_geq)
  ultimately show ?thesis by simp
qed

text \<open>What a successful forward call leaves behind.\<close>

lemma MaxPool_activate_state:
  assumes fwd: "MaxPool_activate self0 x = (Inr y, self)"
    and shape: "pool_shape self0 = (ph, pw)" and x: "shape4 x = (n, ch, h, w)"
  shows "pool_x_cache self = Some x" and "pool_shape self = (ph, pw)"
    and "pool_stride self = pool_stride self0" and "pool_dims self = pool_dims self0"
    and "pool_method self = Some ''reshape'' \<or> pool_method self = Some ''original''"
    and "pool_method self = Some ''reshape'' \<Longrightarrow>
           ph = pw \<and> pw = pool_stride self0 \<and> 0 < ph \<and> h mod ph = 0 \<and> w mod pw = 0 \<and>
           pool_x_reshaped self = Some (fst (MaxPool_activate_reshape ph pw x)) \<and>
           y = snd (MaxPool_activate_reshape ph pw x)"
    and "pool_method self = Some ''original'' \<Longrightarrow>
           MaxPool_activate_original ph pw (pool_stride self0)
             (nat (out_h (pool_dims self0))) (nat (out_w (pool_dims self0))) x = Inr y"
  using fwd
  by (auto simp: MaxPool_activate_def Let_def shape x split: if_splits prod.splits sum.splits)

lemma MaxPool_activate_reshape_path:
  assumes "pool_shape self = (p, p)" "pool_stride self = p" "0 < p"
    and "shape4 x = (n, ch, h, w)" "h mod p = 0" "w mod p = 0"
  shows "MaxPool_activate self x =
           (Inr (snd (MaxPool_activate_reshape p p x)),
            self\<lparr> pool_x_cache := Some x,
                  pool_x_reshaped := Some (fst (MaxPool_activate_reshape p p x)),
                  pool_method := Some ''reshape'' \<rparr>)"
  using assms by (simp add: MaxPool_activate_def Let_def split: prod.splits)

lemma MaxPool_derivative_reshape_path:
  assumes "pool_method self = Some ''reshape''" "pool_x_reshaped self = Some xr"
    "pool_x_cache self = Some x"
  shows "MaxPool_derivative self y delta = Inr (MaxPool_derivative_reshape xr x y delta)"
  using assms by (simp add: MaxPool_derivative_def)

lemma MaxPool_derivative_original_path:
  assumes "pool_method self = Some ''original''" "pool_x_cache self = Some x"
    "pool_shape self = (ph, pw)"
  shows "MaxPool_derivative self y delta =
           MaxPool_derivative_original ph pw (pool_stride self)
             (nat (out_h (pool_dims self))) (nat (out_w (pool_dims self))) x delta"
  using assms by (simp add: MaxPool_derivative_def)

subsection \<open>The sliding-window backward pass returns on tiles\<close>

lemma window_step_total:
  assumes x: "rect h w x" and dx: "rect h w dx"
    and m: "np_max (window x (k * sd) (ph + k * sd) (l * sd) (pw + l * sd)) = Inr m"
    and d: "k < length delta" "l < length (delta ! k)"
  shows "\<exists>dx'. window_step ph pw sd x delta k l dx = Inr dx' \<and> rect h w dx'"
proof -
  have "window_step ph pw sd x delta k l dx =
        Inr (set_window dx (k * sd) (ph + k * sd) (l * sd) (pw + l * sd)
               (ew1 (\<lambda>v. (if v = m then 1 else 0) * delta ! k ! l)
                  (window x (k * sd) (ph + k * sd) (l * sd) (pw + l * sd))))"
    using m d by (simp add: window_step_def Let_def index2_def)
  moreover from this have "rect h w (set_window dx (k * sd) (ph + k * sd) (l * sd) (pw + l * sd)
               (ew1 (\<lambda>v. (if v = m then 1 else 0) * delta ! k ! l)
                  (window x (k * sd) (ph + k * sd) (l * sd) (pw + l * sd))))"
    using window_step_cell(1) [OF x dx] by simp
  ultimately show ?thesis by blast
qed

lemma derivative_original_total:
  assumes x: "has_shape4 (n, ch, nh * p, nw * p) x" and p: "0 < p"
    and delta: "has_shape4 (n, ch, nh, nw) delta"
  shows "\<exists>dx. MaxPool_derivative_original p p p nh nw x delta = Inr dx"
proof -
  have plane: "\<exists>dx. for_loop [0..<nh] (\<lambda>k. for_loop [0..<nw]
           (window_step p p p (x ! i ! j) (delta ! i ! j) k)) (ew1 (\<lambda>v. 0) (x ! i ! j)) = Inr dx"
    if ij: "i < n" "j < ch" for i j
  proof -
    let ?x = "x ! i ! j" and ?d = "delta ! i ! j"
    have rx: "rect (nh * p) (nw * p) ?x" and rd: "rect nh nw ?d"
      using has_shape4D(4) [OF x ij] has_shape4D(4) [OF delta ij] .
    have zero: "rect (nh * p) (nw * p) (ew1 (\<lambda>v. 0) ?x)"
      using rx by (simp add: rect_def ew1_def list_all_iff)
    have inner: "\<exists>s'. for_loop [0..<nw] (window_step p p p ?x ?d k) s = Inr s' \<and>
                   rect (nh * p) (nw * p) s'"
      if k: "k \<in> set [0..<nh]" and s: "rect (nh * p) (nw * p) s" for k s
    proof (rule for_loop_total [where good = "rect (nh * p) (nw * p)", OF _ s])
      fix l t
      assume l: "l \<in> set [0..<nw]" and t: "rect (nh * p) (nw * p) t"
      have "np_max (window ?x (k * p) (p + k * p) (l * p) (p + l * p)) =
            Inr (Max (tile_values ?x p p k l))"
        using rx p k l by (intro window_max_tile) simp_all
      moreover have "k < length ?d" "l < length (?d ! k)"
        using rd k l rect_nth [OF rd, of k] by (simp_all add: rect_length)
      ultimately show "\<exists>s'. window_step p p p ?x ?d k l t = Inr s' \<and> rect (nh * p) (nw * p) s'"
        by (intro window_step_total [OF rx t])
    qed
    have "\<exists>s'. for_loop [0..<nh] (\<lambda>k. for_loop [0..<nw] (window_step p p p ?x ?d k))
                  (ew1 (\<lambda>v. 0) ?x) = Inr s' \<and> rect (nh * p) (nw * p) s'"
      by (rule for_loop_total [where good = "rect (nh * p) (nw * p)", OF inner zero])
    then show ?thesis by blast
  qed
  have "\<exists>ys. sequence (map (\<lambda>i. sequence (map (\<lambda>j.
        for_loop [0..<nh] (\<lambda>k. for_loop [0..<nw]
          (window_step p p p (x ! i ! j) (delta ! i ! j) k))
          (ew1 (\<lambda>v. 0) (x ! i ! j)))
        [0..<ch])) [0..<n]) = Inr ys"
    by (intro sequence_total plane)
  then show ?thesis
    by (simp add: MaxPool_derivative_original_def has_shape4D(1) [OF x])
qed

subsection \<open>Ties and window sums\<close>

lemma np_max1_in: "xs \<noteq> [] \<Longrightarrow> np_max1 xs \<in> set xs"
  using Max_in [of "set xs"] by (simp add: np_max1_eq_Max)

lemma ties_pos: "concat w \<noteq> [] \<Longrightarrow> 0 < ties w"
  using np_max1_in [of "concat w"] by (simp add: ties_def filter_empty_conv)

lemma tile_nonempty:
  assumes "rect (nh * p) (nw * p) plane" "0 < p" "a < nh" "c < nw"
  shows "concat (pool_window p p p plane a c) \<noteq> []"
  using assms by (simp add: pool_window_def window_tile_list product_eq_Nil)

lemma sum_list_indicator:
  "sum_list (map (\<lambda>q. if P q then v else 0) qs) = real (length (filter P qs)) * (v::real)"
  by (induction qs) (simp_all add: algebra_simps)

lemma tile_sum_reshape:
  assumes plane: "rect (nh * p) (nw * p) plane" and dx: "rect (nh * p) (nw * p) dx"
    and idx: "a < nh" "c < nw" and p: "0 < p"
    and cell: "\<And>b d. b < p \<Longrightarrow> d < p \<Longrightarrow> dx ! (a * p + b) ! (c * p + d) =
        (if plane ! (a * p + b) ! (c * p + d) = m then v else 0) / real k"
    and k: "k = length (filter (\<lambda>u. u = m) (concat (pool_window p p p plane a c)))" "0 < k"
  shows "sum_list (concat (pool_window p p p dx a c)) = v"
proof -
  let ?L = "List.product [0..<p] [0..<p]"
  let ?g = "\<lambda>(b, d). plane ! (a * p + b) ! (c * p + d)"
  have "concat (pool_window p p p dx a c) = map (\<lambda>(b, d). dx ! (a * p + b) ! (c * p + d)) ?L"
    by (simp add: pool_window_def window_tile_list [OF dx idx])
  also have "\<dots> = map (\<lambda>q. (if ?g q = m then v else 0) / real k) ?L"
    by (rule map_cong [OF refl]) (auto simp: cell)
  finally have "sum_list (concat (pool_window p p p dx a c)) =
                real (length (filter (\<lambda>q. ?g q = m) ?L)) * v / real k"
    by (simp only: sum_list_ties)
  moreover have "length (filter (\<lambda>q. ?g q = m) ?L) = k"
    unfolding k(1) by (simp add: pool_window_def window_tile_list [OF plane idx] filter_map comp_def)
  ultimately show ?thesis
    using k(2) by simp
qed

lemma tile_sum_original:
  assumes plane: "rect (nh * p) (nw * p) plane" and dx: "rect (nh * p) (nw * p) dx"
    and idx: "a < nh" "c < nw"
    and cell: "\<And>b d. b < p \<Longrightarrow> d < p \<Longrightarrow> dx ! (a * p + b) ! (c * p + d) =
        (if plane ! (a * p + b) ! (c * p + d) = m then v else 0)"
  shows "sum_list (concat (pool_window p p p dx a c)) =
         real (length (filter (\<lambda>u. u = m) (concat (pool_window p p p plane a c)))) * v"
proof -
  let ?L = "List.product [0..<p] [0..<p]"
  let ?g = "\<lambda>(b, d). plane ! (a * p + b) ! (c * p + d)"
  have "concat (pool_window p p p dx a c) = map (\<lambda>(b, d). dx ! (a * p + b) ! (c * p + d)) ?L"
    by (simp add: pool_window_def window_tile_list [OF dx idx])
  also have "\<dots> = map (\<lambda>q. if ?g q = m then v else 0) ?L"
    by (rule map_cong [OF refl]) (auto simp: cell)
  finally have "sum_list (concat (pool_window p p p dx a c)) =
                real (length (filter (\<lambda>q. ?g q = m) ?L)) * v"
    by (simp only: sum_list_indicator)
  moreover have "length (filter (\<lambda>q. ?g q = m) ?L) =
      length (filter (\<lambda>u. u = m) (concat (pool_window p p p plane a c)))"
    by (simp add: pool_window_def window_tile_list [OF plane idx] filter_map comp_def)
  ultimately show ?thesis by simp
qed

lemma tile_windows_equal:
  assumes dx: "rect (nh * p) (nw * p) dx" and dx': "rect (nh * p) (nw * p) dx'"
    and idx: "a < nh" "c < nw"
    and cell: "\<And>b d. b < p \<Longrightarrow> d < p \<Longrightarrow>
        dx ! (a * p + b) ! (c * p + d) = dx' ! (a * p + b) ! (c * p + d)"
  shows "pool_window p p p dx a c = pool_window p p p dx' a c"
proof -
  have r: "min (p + a * p) (nh * p) = a * p + p"
    using idx(1) mult_add_less [of a nh 0 p] mult_le_mono1 [of "a + 1" nh p] by (simp add: add.commute)
  have c: "min (p + c * p) (nw * p) = c * p + p"
    using idx(2) mult_le_mono1 [of "c + 1" nw p] by (simp add: add.commute)
  have "map (\<lambda>r. map (\<lambda>c. dx ! r ! c) [c * p..<c * p + p]) [a * p..<a * p + p] =
        map (\<lambda>r. map (\<lambda>c. dx' ! r ! c) [c * p..<c * p + p]) [a * p..<a * p + p]"
  proof (intro map_cong refl)
    fix r col
    assume "r \<in> set [a * p..<a * p + p]" "col \<in> set [c * p..<c * p + p]"
    then have "r = a * p + (r - a * p)" "r - a * p < p" "col = c * p + (col - c * p)" "col - c * p < p"
      by auto
    then show "dx ! r ! col = dx' ! r ! col"
      using cell [of "r - a * p" "col - c * p"] by simp
  qed
  then show ?thesis
    by (simp add: pool_window_def window_conv [OF dx] window_conv [OF dx'] r c)
qed

subsection \<open>The backward pass and the agreement of the two paths\<close>

lemma covering_routed:
  assumes x: "has_shape4 (n, ch, h, w) x"
    and run: "MaxPool_derivative_original ph pw sd oh ow x delta = Inr dx"
    and ij: "i < n" "j < ch" and rc: "r < h" "c < w"
    and le: "ph \<le> sd" "pw \<le> sd" and kl: "k < oh" "l < ow"
    and cov: "covers ph sd k r" "covers pw sd l c"
  shows "dx ! i ! j ! r ! c =
         (if x ! i ! j ! r ! c = np_max1 (concat (pool_window ph pw sd (x ! i ! j) k l))
          then delta ! i ! j ! k ! l else 0)"
  using derivative_original_cell [OF x run ij rc]
  by (simp add: covering_single [OF le kl cov] routed_def pool_window_def)

lemma covers_tile:
  assumes "b < p"
  shows "covers p p a (a * p + b)"
  using assms by (simp add: covers_def)

text \<open>
  C3. After a forward call on an input of shape \<open>(n, ch, h, w)\<close>, the backward call
  gives, on every plane: on the reshape path an entry of a tile gets the upstream value
  of the tile when it equals the tile's maximum and 0 otherwise, divided by the number
  of entries of the tile that equal the maximum (a positive number), so that a tile
  with a single maximum passes the whole upstream value to it; on the sliding-window
  path the assignment of a window writes the upstream value, undivided, at every entry
  of the window that equals its maximum and 0 at the others, and when the windows do
  not overlap (the window no larger than the stride) that is the gradient returned at
  every position a window covers.
\<close>

theorem MaxPool_derivative_ties:
  assumes x: "has_shape4 (n, ch, h, w) x"
    and fwd: "MaxPool_activate self0 x = (Inr y, self)"
    and shape: "pool_shape self0 = (ph, pw)" and stride: "pool_stride self0 = sd"
    and bwd: "MaxPool_derivative self y delta = Inr dx"
    and ij: "i < n" "j < ch"
  shows "(pool_method self = Some ''reshape'' \<longrightarrow>
            (\<forall>a<h div ph. \<forall>c<w div pw. \<forall>b<ph. \<forall>d<pw.
               0 < ties (pool_window ph pw sd (x ! i ! j) a c) \<and>
               dx ! i ! j ! (a * ph + b) ! (c * pw + d) =
                 (if x ! i ! j ! (a * ph + b) ! (c * pw + d) =
                       np_max1 (concat (pool_window ph pw sd (x ! i ! j) a c))
                  then delta ! i ! j ! a ! c else 0)
                   / real (ties (pool_window ph pw sd (x ! i ! j) a c)) \<and>
               (ties (pool_window ph pw sd (x ! i ! j) a c) = 1 \<longrightarrow>
                  dx ! i ! j ! (a * ph + b) ! (c * pw + d) =
                    (if x ! i ! j ! (a * ph + b) ! (c * pw + d) =
                          np_max1 (concat (pool_window ph pw sd (x ! i ! j) a c))
                     then delta ! i ! j ! a ! c else 0)))) \<and>
         (pool_method self = Some ''original'' \<and> ph \<le> sd \<and> pw \<le> sd \<longrightarrow>
            (\<forall>k<nat (out_h (pool_dims self0)). \<forall>l<nat (out_w (pool_dims self0)). \<forall>r<h. \<forall>c<w.
               covers ph sd k r \<and> covers pw sd l c \<longrightarrow>
               dx ! i ! j ! r ! c =
                 (if x ! i ! j ! r ! c = np_max1 (concat (pool_window ph pw sd (x ! i ! j) k l))
                  then delta ! i ! j ! k ! l else 0))) \<and>
         (\<forall>k l r c before after.
            rect h w before \<and>
            window_step ph pw sd (x ! i ! j) (delta ! i ! j) k l before = Inr after \<and>
            r < h \<and> c < w \<and> covers ph sd k r \<and> covers pw sd l c \<longrightarrow>
            after ! r ! c =
              (if x ! i ! j ! r ! c = np_max1 (concat (pool_window ph pw sd (x ! i ! j) k l))
               then delta ! i ! j ! k ! l else 0))"
proof (intro conjI impI allI)
  note st = MaxPool_activate_state [OF fwd shape has_shape4D(1) [OF x]]
  {
    fix a c b d
    assume m: "pool_method self = Some ''reshape''"
      and idx: "a < h div ph" "c < w div pw" "b < ph" "d < pw"
    from st(6) [OF m] stride have p: "pw = ph" "sd = ph" "0 < ph" "h mod ph = 0" "w mod ph = 0"
      and xr: "pool_x_reshaped self = Some (fst (MaxPool_activate_reshape ph ph x))"
      and y: "y = snd (MaxPool_activate_reshape ph ph x)"
      by auto
    let ?nh = "h div ph" and ?nw = "w div ph"
    have hw: "h = ?nh * ph" "w = ?nw * ph"
      using p by auto
    have x': "has_shape4 (n, ch, ?nh * ph, ?nw * ph) x"
      using x hw by simp
    have plane: "rect (?nh * ph) (?nw * ph) (x ! i ! j)"
      using has_shape4D(4) [OF x' ij] .
    have dx: "dx = MaxPool_derivative_reshape (fst (MaxPool_activate_reshape ph ph x)) x y delta"
      using bwd MaxPool_derivative_reshape_path [OF m xr st(1)] by simp
    have ya: "y ! i ! j ! a ! c = np_max1 (concat (pool_window ph ph ph (x ! i ! j) a c))"
      unfolding y pool_window_def using idx p
      by (intro activate_reshape_cell [OF x' p(3) ij]) simp_all
    have cell: "dx ! i ! j ! (a * ph + b) ! (c * ph + d) =
         (if x ! i ! j ! (a * ph + b) ! (c * ph + d) = y ! i ! j ! a ! c
          then delta ! i ! j ! a ! c else 0)
           / real (length (filter (\<lambda>v. v = y ! i ! j ! a ! c)
                (concat (window (x ! i ! j) (a * ph) (ph + a * ph) (c * ph) (ph + c * ph)))))"
      unfolding dx using idx p by (intro derivative_reshape_cell [OF x' p(3) ij]) simp_all
    have pos: "0 < ties (pool_window ph ph ph (x ! i ! j) a c)"
      using idx p by (intro ties_pos tile_nonempty [OF plane]) simp_all
    show "0 < ties (pool_window ph pw sd (x ! i ! j) a c)"
      using pos p by simp
    show eq: "dx ! i ! j ! (a * ph + b) ! (c * pw + d) =
                 (if x ! i ! j ! (a * ph + b) ! (c * pw + d) =
                       np_max1 (concat (pool_window ph pw sd (x ! i ! j) a c))
                  then delta ! i ! j ! a ! c else 0)
                   / real (ties (pool_window ph pw sd (x ! i ! j) a c))"
      using cell ya p by (simp add: ties_def pool_window_def)
    show "dx ! i ! j ! (a * ph + b) ! (c * pw + d) =
                    (if x ! i ! j ! (a * ph + b) ! (c * pw + d) =
                          np_max1 (concat (pool_window ph pw sd (x ! i ! j) a c))
                     then delta ! i ! j ! a ! c else 0)"
      if "ties (pool_window ph pw sd (x ! i ! j) a c) = 1"
      using eq that by simp
  }
  {
    fix k l r c
    assume m: "pool_method self = Some ''original'' \<and> ph \<le> sd \<and> pw \<le> sd"
      and kl: "k < nat (out_h (pool_dims self0))" "l < nat (out_w (pool_dims self0))"
      and rc: "r < h" "c < w" and cov: "covers ph sd k r \<and> covers pw sd l c"
    have "MaxPool_derivative_original ph pw sd (nat (out_h (pool_dims self0)))
            (nat (out_w (pool_dims self0))) x delta = Inr dx"
      using bwd MaxPool_derivative_original_path [of self x ph pw y delta] m st(1-4) stride
      by simp
    from covering_routed [OF x this ij rc _ _ kl] m cov
    show "dx ! i ! j ! r ! c =
            (if x ! i ! j ! r ! c = np_max1 (concat (pool_window ph pw sd (x ! i ! j) k l))
             then delta ! i ! j ! k ! l else 0)"
      by simp
  }
  {
    fix k l r c before after
    assume a: "rect h w before \<and>
        window_step ph pw sd (x ! i ! j) (delta ! i ! j) k l before = Inr after \<and>
        r < h \<and> c < w \<and> covers ph sd k r \<and> covers pw sd l c"
    then have before: "rect h w before"
      and step: "window_step ph pw sd (x ! i ! j) (delta ! i ! j) k l before = Inr after"
      and rc: "r < h \<and> c < w" and cov: "covers ph sd k r \<and> covers pw sd l c"
      by simp_all
    from window_step_cell(2) [OF has_shape4D(4) [OF x ij] before step]
    obtain m where m: "np_max (window (x ! i ! j) (k * sd) (ph + k * sd) (l * sd) (pw + l * sd)) = Inr m"
      and cell: "\<forall>r c. r < h \<and> c < w \<longrightarrow> after ! r ! c =
              (if covers ph sd k r \<and> covers pw sd l c
               then (if x ! i ! j ! r ! c = m then delta ! i ! j ! k ! l else 0) else before ! r ! c)"
      by blast
    from cell rc cov np_max_Inr [OF m]
    show "after ! r ! c =
            (if x ! i ! j ! r ! c = np_max1 (concat (pool_window ph pw sd (x ! i ! j) k l))
             then delta ! i ! j ! k ! l else 0)"
      by (simp add: pool_window_def)
  }
qed

theorem MaxPool_derivative_ties_witness:
  "MaxPool_init (1, 2, 2) (2, 2) 2 0 = Inr pool_tile \<and>
   fst (MaxPool_activate pool_tile [[[[1, 1], [1, 0]]]]) = Inr [[[[1]]]] \<and>
   pool_method (snd (MaxPool_activate pool_tile [[[[1, 1], [1, 0]]]])) = Some ''reshape'' \<and>
   MaxPool_derivative (snd (MaxPool_activate pool_tile [[[[1, 1], [1, 0]]]])) [[[[1]]]] [[[[3]]]] =
     Inr [[[[1, 1], [1, 0]]]] \<and>
   ties (pool_window 2 2 2 [[1, 1], [1, 0]] 0 0) = 3 \<and>
   [[[[1, 1], [1, 0 :: real]]]] ! 0 ! 0 ! (0 * 2 + 0) ! (0 * 2 + 1) =
     (if [[[[1, 1], [1, 0 :: real]]]] ! 0 ! 0 ! (0 * 2 + 0) ! (0 * 2 + 1) =
           np_max1 (concat (pool_window 2 2 2 ([[[[1, 1], [1, 0]]]] ! 0 ! 0) 0 0))
      then [[[[3]]]] ! 0 ! 0 ! 0 ! 0 else 0)
       / real (ties (pool_window 2 2 2 ([[[[1, 1], [1, 0]]]] ! 0 ! 0) 0 0)) \<and>
   MaxPool_init (1, 2, 3) (1, 2) 2 0 = Inr pool_row \<and>
   fst (MaxPool_activate pool_row [[[[7, 7, 1], [0, 0, 0]]]]) = Inr [[[[7]]]] \<and>
   pool_method (snd (MaxPool_activate pool_row [[[[7, 7, 1], [0, 0, 0]]]])) = Some ''original'' \<and>
   MaxPool_derivative (snd (MaxPool_activate pool_row [[[[7, 7, 1], [0, 0, 0]]]])) [[[[7]]]]
     [[[[3]]]] = Inr [[[[3, 3, 0], [0, 0, 0]]]] \<and>
   ties (pool_window 1 2 2 [[7, 7, 1], [0, 0, 0]] 0 0) = 2 \<and>
   [[[[3, 3, 0], [0, 0, 0 :: real]]]] ! 0 ! 0 ! 0 ! 1 =
     (if [[[[7, 7, 1], [0, 0, 0 :: real]]]] ! 0 ! 0 ! 0 ! 1 =
           np_max1 (concat (pool_window 1 2 2 ([[[[7, 7, 1], [0, 0, 0]]]] ! 0 ! 0) 0 0))
      then [[[[3]]]] ! 0 ! 0 ! 0 ! 0 else 0)"
proof -
  let ?x = "[[[[1, 1], [1, 0]]]] :: tensor4" and ?y = "[[[[1]]]] :: tensor4"
  let ?d = "[[[[3]]]] :: tensor4" and ?dx = "[[[[1, 1], [1, 0]]]] :: tensor4"
  let ?self = "snd (MaxPool_activate pool_tile ?x)"
  let ?u = "[[[[7, 7, 1], [0, 0, 0]]]] :: tensor4" and ?v = "[[[[7]]]] :: tensor4"
  let ?du = "[[[[3, 3, 0], [0, 0, 0]]]] :: tensor4"
  let ?self' = "snd (MaxPool_activate pool_row ?u)"
  have lt: "(0::nat) < 1" "(0::nat) < 2 div 2" "(0::nat) < 2" "(1::nat) < 2" "(1::nat) < 3"
    by simp_all
  have init: "MaxPool_init (1, 2, 2) (2, 2) 2 0 = Inr pool_tile"
    by code_simp
  have x: "has_shape4 (1, 1, 2, 2) ?x"
    by code_simp
  have out: "fst (MaxPool_activate pool_tile ?x) = Inr ?y"
    by code_simp
  then have fwd: "MaxPool_activate pool_tile ?x = (Inr ?y, ?self)"
    by (simp add: prod_eq_iff)
  have shape: "pool_shape pool_tile = (2, 2)" and stride: "pool_stride pool_tile = 2"
    by (simp_all add: pool_tile_def)
  have path: "pool_method ?self = Some ''reshape''"
    by code_simp
  have bwd: "MaxPool_derivative ?self ?y ?d = Inr ?dx"
    by code_simp
  have tied: "ties (pool_window 2 2 2 [[1, 1], [1, 0]] 0 0) = 3"
    by code_simp
  note shared = MaxPool_derivative_ties [OF x fwd shape stride bwd lt(1) lt(1), THEN conjunct1,
      rule_format, OF path lt(2) lt(2) lt(3) lt(4), THEN conjunct2, THEN conjunct1]
  have init': "MaxPool_init (1, 2, 3) (1, 2) 2 0 = Inr pool_row"
    by code_simp
  have u: "has_shape4 (1, 1, 2, 3) ?u"
    by code_simp
  have out': "fst (MaxPool_activate pool_row ?u) = Inr ?v"
    by code_simp
  then have fwd': "MaxPool_activate pool_row ?u = (Inr ?v, ?self')"
    by (simp add: prod_eq_iff)
  have shape': "pool_shape pool_row = (1, 2)" and stride': "pool_stride pool_row = 2"
    by (simp_all add: pool_row_def)
  have path': "pool_method ?self' = Some ''original''"
    by code_simp
  have bwd': "MaxPool_derivative ?self' ?v ?d = Inr ?du"
    by code_simp
  have tied': "ties (pool_window 1 2 2 [[7, 7, 1], [0, 0, 0]] 0 0) = 2"
    by code_simp
  have apart: "(1::nat) \<le> 2" "(2::nat) \<le> 2"
    by simp_all
  have kl: "0 < nat (out_h (pool_dims pool_row))" "0 < nat (out_w (pool_dims pool_row))"
    by (simp_all add: pool_row_def)
  have cov: "covers 1 2 0 0" "covers 2 2 0 1"
    by (simp_all add: covers_def)
  note whole = MaxPool_derivative_ties [OF u fwd' shape' stride' bwd' lt(1) lt(1), THEN conjunct2,
      THEN conjunct1, rule_format, OF conjI [OF path' conjI [OF apart]] kl lt(3) lt(5) conjI [OF cov]]
  from init out path bwd tied shared init' out' path' bwd' tied' whole show ?thesis
    by (intro conjI)
qed

text \<open>
  C10. On the sliding-window path the gradient returned at an input position is what
  the last window covering it, in the order of the loops (\<open>k\<close> outside, \<open>l\<close> inside),
  assigned there; what the earlier windows routed to the position is overwritten, not
  added, and a position that no window covers keeps 0. On the row \<open>[1, 5, 2]\<close> pooled
  by 1x2 windows of stride 1 with upstream values 3 and 4, the entry 5 is the maximum
  of both windows and ends with 4.
\<close>

theorem fallback_keeps_last_window:
  assumes x: "has_shape4 (n, ch, h, w) x"
    and fwd: "MaxPool_activate self0 x = (Inr y, self)"
    and shape: "pool_shape self0 = (ph, pw)" and stride: "pool_stride self0 = sd"
    and path: "pool_method self = Some ''original''"
    and bwd: "MaxPool_derivative self y delta = Inr dx"
    and ij: "i < n" "j < ch" and rc: "r < h" "c < w"
  shows "dx ! i ! j ! r ! c =
           (case covering ph pw sd (nat (out_h (pool_dims self0))) (nat (out_w (pool_dims self0))) r c of
              [] \<Rightarrow> 0
            | ws \<Rightarrow> routed ph pw sd (x ! i ! j) (delta ! i ! j) (fst (last ws)) (snd (last ws)) r c)"
proof -
  note st = MaxPool_activate_state [OF fwd shape has_shape4D(1) [OF x]]
  have "MaxPool_derivative_original ph pw sd (nat (out_h (pool_dims self0)))
          (nat (out_w (pool_dims self0))) x delta = Inr dx"
    using bwd MaxPool_derivative_original_path [of self x ph pw y delta] path st(1-4) stride
    by simp
  from derivative_original_cell [OF x this ij rc] show ?thesis .
qed

theorem fallback_keeps_last_window_witness:
  "MaxPool_init (1, 1, 3) (1, 2) 1 0 = Inr pool_overlap \<and>
   fst (MaxPool_activate pool_overlap [[[[1, 5, 2]]]]) = Inr [[[[5, 5]]]] \<and>
   pool_method (snd (MaxPool_activate pool_overlap [[[[1, 5, 2]]]])) = Some ''original'' \<and>
   MaxPool_derivative (snd (MaxPool_activate pool_overlap [[[[1, 5, 2]]]])) [[[[5, 5]]]]
     [[[[3, 4]]]] = Inr [[[[0, 4, 0]]]] \<and>
   covering 1 2 1 1 2 0 1 = [(0, 0), (0, 1)] \<and>
   routed 1 2 1 [[1, 5, 2]] [[3, 4]] 0 0 0 1 = 3 \<and>
   routed 1 2 1 [[1, 5, 2]] [[3, 4]] 0 1 0 1 = 4 \<and>
   [[[[0, 4, 0]]]] ! 0 ! 0 ! 0 ! 1 = routed 1 2 1 [[1, 5, 2]] [[3, 4]] 0 1 0 (1::nat)"
proof -
  let ?x = "[[[[1, 5, 2]]]] :: tensor4" and ?y = "[[[[5, 5]]]] :: tensor4"
  let ?d = "[[[[3, 4]]]] :: tensor4" and ?dx = "[[[[0, 4, 0]]]] :: tensor4"
  let ?self = "snd (MaxPool_activate pool_overlap ?x)"
  have init: "MaxPool_init (1, 1, 3) (1, 2) 1 0 = Inr pool_overlap"
    by code_simp
  have x: "has_shape4 (1, 1, 1, 3) ?x"
    by code_simp
  have out: "fst (MaxPool_activate pool_overlap ?x) = Inr ?y"
    by code_simp
  then have fwd: "MaxPool_activate pool_overlap ?x = (Inr ?y, ?self)"
    by (simp add: prod_eq_iff)
  have shape: "pool_shape pool_overlap = (1, 2)" and stride: "pool_stride pool_overlap = 1"
    by (simp_all add: pool_overlap_def)
  have path: "pool_method ?self = Some ''original''"
    by code_simp
  have bwd: "MaxPool_derivative ?self ?y ?d = Inr ?dx"
    by code_simp
  have cov: "covering 1 2 1 1 2 0 1 = [(0, 0), (0, 1)]"
    by code_simp
  have r0: "routed 1 2 1 [[1, 5, 2]] [[3, 4]] 0 0 0 1 = 3"
    and r1: "routed 1 2 1 [[1, 5, 2]] [[3, 4]] 0 1 0 1 = 4"
    by code_simp+
  have lt: "(0::nat) < 1" "(1::nat) < 3"
    by simp_all
  note cell = fallback_keeps_last_window [OF x fwd shape stride path bwd lt(1) lt(1) lt(1) lt(2)]
  have last_writer: "(case covering 1 2 1 (nat (out_h (pool_dims pool_overlap)))
                        (nat (out_w (pool_dims pool_overlap))) 0 1 of
                    [] \<Rightarrow> 0
                  | ws \<Rightarrow> routed 1 2 1 (?x ! 0 ! 0) (?d ! 0 ! 0) (fst (last ws)) (snd (last ws)) 0 1) =
                 routed 1 2 1 [[1, 5, 2]] [[3, 4]] 0 1 0 1"
    by code_simp
  have "?dx ! 0 ! 0 ! 0 ! 1 = routed 1 2 1 [[1, 5, 2]] [[3, 4]] 0 1 0 (1::nat)"
    by (rule trans [OF cell last_writer])
  with init out path bwd cov r0 r1 show ?thesis
    by simp
qed

text \<open>
  C4. For a pooling layer constructed with a square window of side \<open>p\<close> and stride \<open>p\<close>,
  on an input whose height and width \<open>p\<close> divides: the forward call returns by the
  reshape path, and the sliding-window loops return the same array on the same input;
  both backward paths return; and in every window with a single maximum the gradient
  of either path sums to the upstream value of the window, the two gradients being
  equal on the window. Arrays hold real numbers here, and the forward paths select
  entries of the input without arithmetic on them.
\<close>

theorem MaxPool_paths_agree:
  assumes init: "MaxPool_init (ch, h, w) (p, p) p padding = Inr self"
    and x: "has_shape4 (n, ch, h, w) x" and tiles: "h mod p = 0" "w mod p = 0"
    and delta: "has_shape4 (n, ch, h div p, w div p) delta"
  shows "\<exists>y self' dxf dxo.
           MaxPool_activate self x = (Inr y, self') \<and> pool_method self' = Some ''reshape'' \<and>
           MaxPool_activate_original p p p (nat (out_h (pool_dims self)))
             (nat (out_w (pool_dims self))) x = Inr y \<and>
           MaxPool_derivative self' y delta = Inr dxf \<and>
           MaxPool_derivative_original p p p (nat (out_h (pool_dims self)))
             (nat (out_w (pool_dims self))) x delta = Inr dxo \<and>
           (\<forall>i<n. \<forall>j<ch. \<forall>a<h div p. \<forall>c<w div p.
              ties (pool_window p p p (x ! i ! j) a c) = 1 \<longrightarrow>
                sum_list (concat (pool_window p p p (dxf ! i ! j) a c)) = delta ! i ! j ! a ! c \<and>
                sum_list (concat (pool_window p p p (dxo ! i ! j) a c)) = delta ! i ! j ! a ! c \<and>
                pool_window p p p (dxf ! i ! j) a c = pool_window p p p (dxo ! i ! j) a c)"
proof -
  note f = MaxPool_init_fields [OF init]
  have p: "0 < p" using f(1) by simp
  let ?nh = "h div p" and ?nw = "w div p"
  have hw: "h = ?nh * p" "w = ?nw * p"
    using tiles by auto
  have oh: "nat (out_h (pool_dims self)) = ?nh" and ow: "nat (out_w (pool_dims self)) = ?nw"
    using f(4,5) tile_out_size [OF p tiles(1)] tile_out_size [OF p tiles(2)] by simp_all
  have x': "has_shape4 (n, ch, ?nh * p, ?nw * p) x"
    using x hw by simp
  let ?R = "MaxPool_activate_reshape p p x"
  let ?y = "snd ?R"
  let ?self' = "self\<lparr> pool_x_cache := Some x, pool_x_reshaped := Some (fst ?R),
                       pool_method := Some ''reshape'' \<rparr>"
  let ?dxf = "MaxPool_derivative_reshape (fst ?R) x ?y delta"
  have fwd: "MaxPool_activate self x = (Inr ?y, ?self')"
    using f(2,3) p has_shape4D(1) [OF x] tiles by (intro MaxPool_activate_reshape_path)
  have orig: "MaxPool_activate_original p p p ?nh ?nw x = Inr ?y"
    using activate_paths_agree [OF x' p] .
  have bwd: "MaxPool_derivative ?self' ?y delta = Inr ?dxf"
    by (intro MaxPool_derivative_reshape_path) simp_all
  obtain dxo where dxo: "MaxPool_derivative_original p p p ?nh ?nw x delta = Inr dxo"
    using derivative_original_total [OF x' p delta] by blast
  have win: "sum_list (concat (pool_window p p p (?dxf ! i ! j) a c)) = delta ! i ! j ! a ! c \<and>
             sum_list (concat (pool_window p p p (dxo ! i ! j) a c)) = delta ! i ! j ! a ! c \<and>
             pool_window p p p (?dxf ! i ! j) a c = pool_window p p p (dxo ! i ! j) a c"
    if ij: "i < n" "j < ch" and idx: "a < ?nh" "c < ?nw"
      and one: "ties (pool_window p p p (x ! i ! j) a c) = 1" for i j a c
  proof -
    let ?m = "np_max1 (concat (pool_window p p p (x ! i ! j) a c))"
    have plane: "rect (?nh * p) (?nw * p) (x ! i ! j)"
      using has_shape4D(4) [OF x' ij] .
    have sh: "shape4 x = (n, ch, ?nh * p, ?nw * p)" "length x = n" "length (x ! i) = ch"
      using has_shape4D(1-3) [OF x'] ij by simp_all
    have "?dxf ! i ! j = plane_of (?nh * p) (?nw * p)
          (tiles_derivative (fst (fst ?R)) (snd (fst ?R) ! i ! j) (?y ! i ! j) (delta ! i ! j))"
      using ij by (simp add: MaxPool_derivative_reshape_def sh)
    then have rf: "rect (?nh * p) (?nw * p) (?dxf ! i ! j)"
      by (simp add: rect_plane_of)
    have ro: "rect (?nh * p) (?nw * p) (dxo ! i ! j)"
      using plane_derivative_original(1) [OF plane derivative_original_plane [OF x' dxo ij]] .
    have ya: "?y ! i ! j ! a ! c = ?m"
      unfolding pool_window_def by (rule activate_reshape_cell [OF x' p ij idx])
    have cf: "?dxf ! i ! j ! (a * p + b) ! (c * p + d) =
         (if x ! i ! j ! (a * p + b) ! (c * p + d) = ?m then delta ! i ! j ! a ! c else 0) / real 1"
      if "b < p" "d < p" for b d
      using derivative_reshape_cell [OF x' p ij idx(1) that(1) idx(2) that(2), of ?y delta]
        one ya by (simp add: ties_def pool_window_def)
    have co: "dxo ! i ! j ! (a * p + b) ! (c * p + d) =
         (if x ! i ! j ! (a * p + b) ! (c * p + d) = ?m then delta ! i ! j ! a ! c else 0)"
      if "b < p" "d < p" for b d
    proof (rule covering_routed [OF x' dxo ij _ _ _ _ idx])
      show "a * p + b < ?nh * p" "c * p + d < ?nw * p"
        using idx that by (simp_all add: mult_add_less)
      show "covers p p a (a * p + b)" "covers p p c (c * p + d)"
        using that by (simp_all add: covers_tile)
    qed simp_all
    have k: "1 = length (filter (\<lambda>u. u = ?m) (concat (pool_window p p p (x ! i ! j) a c)))"
      using one by (simp add: ties_def)
    have "sum_list (concat (pool_window p p p (?dxf ! i ! j) a c)) = delta ! i ! j ! a ! c"
      by (rule tile_sum_reshape [OF plane rf idx p cf k]) simp_all
    moreover have "sum_list (concat (pool_window p p p (dxo ! i ! j) a c)) = delta ! i ! j ! a ! c"
      using tile_sum_original [OF plane ro idx co] k by simp
    moreover have "pool_window p p p (?dxf ! i ! j) a c = pool_window p p p (dxo ! i ! j) a c"
      by (rule tile_windows_equal [OF rf ro idx]) (simp add: cf co)
    ultimately show ?thesis by blast
  qed
  show ?thesis
    using fwd orig bwd dxo win unfolding oh ow
    by (intro exI [of _ ?y] exI [of _ ?self'] exI [of _ ?dxf] exI [of _ dxo]) simp
qed

theorem MaxPool_paths_agree_witness:
  "MaxPool_init (1, 4, 4) (2, 2) 2 0 = Inr pool_2x2 \<and>
   fst (MaxPool_activate pool_2x2 x44) = Inr [[[[6, 8], [14, 16]]]] \<and>
   pool_method (snd (MaxPool_activate pool_2x2 x44)) = Some ''reshape'' \<and>
   MaxPool_activate_original 2 2 2 (nat (out_h (pool_dims pool_2x2)))
     (nat (out_w (pool_dims pool_2x2))) x44 = Inr [[[[6, 8], [14, 16]]]] \<and>
   MaxPool_derivative (snd (MaxPool_activate pool_2x2 x44)) [[[[6, 8], [14, 16]]]]
     [[[[1, 2], [3, 4]]]] = Inr [[[[0, 0, 0, 0], [0, 1, 0, 2], [0, 0, 0, 0], [0, 3, 0, 4]]]] \<and>
   MaxPool_derivative_original 2 2 2 (nat (out_h (pool_dims pool_2x2)))
     (nat (out_w (pool_dims pool_2x2))) x44 [[[[1, 2], [3, 4]]]] =
     Inr [[[[0, 0, 0, 0], [0, 1, 0, 2], [0, 0, 0, 0], [0, 3, 0, 4]]]] \<and>
   ties (pool_window 2 2 2 (x44 ! 0 ! 0) 1 0) = 1 \<and>
   sum_list (concat (pool_window 2 2 2
     ([[[[0, 0, 0, 0], [0, 1, 0, 2], [0, 0, 0, 0], [0, 3, 0, 4]]]] ! 0 ! 0) 1 0)) =
     [[[[1, 2], [3, 4 :: real]]]] ! 0 ! 0 ! 1 ! 0"
proof -
  let ?y = "[[[[6, 8], [14, 16]]]] :: tensor4" and ?d = "[[[[1, 2], [3, 4]]]] :: tensor4"
  let ?dx = "[[[[0, 0, 0, 0], [0, 1, 0, 2], [0, 0, 0, 0], [0, 3, 0, 4]]]] :: tensor4"
  let ?self = "snd (MaxPool_activate pool_2x2 x44)"
  let ?oh = "nat (out_h (pool_dims pool_2x2))" and ?ow = "nat (out_w (pool_dims pool_2x2))"
  have lt: "(0::nat) < 1" "(0::nat) < 4 div 2" "(1::nat) < 4 div 2"
    by simp_all
  have init: "MaxPool_init (1, 4, 4) (2, 2) 2 0 = Inr pool_2x2"
    by code_simp
  have x: "has_shape4 (1, 1, 4, 4) x44"
    by code_simp
  have tiles: "(4::nat) mod 2 = 0"
    by simp
  have delta: "has_shape4 (1, 1, 4 div 2, 4 div 2) ?d"
    by code_simp
  have out: "fst (MaxPool_activate pool_2x2 x44) = Inr ?y"
    by code_simp
  have path: "pool_method ?self = Some ''reshape''"
    by code_simp
  have orig: "MaxPool_activate_original 2 2 2 ?oh ?ow x44 = Inr ?y"
    by code_simp
  have bwd: "MaxPool_derivative ?self ?y ?d = Inr ?dx"
    by code_simp
  have bwd': "MaxPool_derivative_original 2 2 2 ?oh ?ow x44 ?d = Inr ?dx"
    by code_simp
  have single: "ties (pool_window 2 2 2 (x44 ! 0 ! 0) 1 0) = 1"
    by code_simp
  from MaxPool_paths_agree [OF init x tiles tiles delta]
  obtain y self' dxf dxo where both: "MaxPool_activate pool_2x2 x44 = (Inr y, self') \<and>
      pool_method self' = Some ''reshape'' \<and>
      MaxPool_activate_original 2 2 2 ?oh ?ow x44 = Inr y \<and>
      MaxPool_derivative self' y ?d = Inr dxf \<and>
      MaxPool_derivative_original 2 2 2 ?oh ?ow x44 ?d = Inr dxo \<and>
      (\<forall>i<1. \<forall>j<1. \<forall>a<4 div 2. \<forall>c<4 div 2.
        ties (pool_window 2 2 2 (x44 ! i ! j) a c) = 1 \<longrightarrow>
          sum_list (concat (pool_window 2 2 2 (dxf ! i ! j) a c)) = ?d ! i ! j ! a ! c \<and>
          sum_list (concat (pool_window 2 2 2 (dxo ! i ! j) a c)) = ?d ! i ! j ! a ! c \<and>
          pool_window 2 2 2 (dxf ! i ! j) a c = pool_window 2 2 2 (dxo ! i ! j) a c)"
    by (elim exE) (rule that)
  note fwd = both [THEN conjunct1]
    and fast = both [THEN conjunct2, THEN conjunct2, THEN conjunct2, THEN conjunct1]
    and windows = both [THEN conjunct2, THEN conjunct2, THEN conjunct2, THEN conjunct2, THEN conjunct2]
  from fwd out have "y = ?y" and "self' = ?self"
    by simp_all
  with fast bwd have "dxf = ?dx"
    by simp
  with windows [rule_format, OF lt(1) lt(1) lt(3) lt(2) single, THEN conjunct1]
  have "sum_list (concat (pool_window 2 2 2 (?dx ! 0 ! 0) 1 0)) = ?d ! 0 ! 0 ! 1 ! 0"
    by (simp only:)
  with init out path orig bwd bwd' single show ?thesis
    by (intro conjI)
qed

end
